(* ===== verification/Prelude.thy ===== *)
theory Prelude
  imports Main
begin

text \<open>
  Shared vocabulary of the development: the character classes of Python's \<open>re\<close>
  module and of \<open>str.strip\<close> on the code points below 256 (the model's \<open>char\<close>),
  the splitting of a file into lines done by \<open>readlines()\<close>, the decimal
  rendering of a line number done by an f-string, and the generic list lemmas the
  component theories share (collected in \<open>pp_simps\<close>).
\<close>

named_theorems pp_simps "rewrite rules shared by the component proofs"

section \<open>Character classes\<close>

text \<open>
  Python's \<open>\s\<close> (and \<open>str.isspace\<close>, used by \<open>str.strip\<close>) on code points
  below 256: tab to carriage return, the four separators 28 to 31, space, NEL and
  no-break space.
\<close>

definition is_space :: "char \<Rightarrow> bool" where
  "is_space c =
     (let n = (of_char c :: nat)
      in (9 \<le> n \<and> n \<le> 13) \<or> (28 \<le> n \<and> n \<le> 32) \<or> n = 133 \<or> n = 160)"

text \<open>
  Python's \<open>\w\<close> on code points below 256: the characters for which
  \<open>str.isalnum\<close> holds, and the underscore.
\<close>

definition is_word :: "char \<Rightarrow> bool" where
  "is_word c =
     (let n = (of_char c :: nat)
      in (48 \<le> n \<and> n \<le> 57) \<or> (65 \<le> n \<and> n \<le> 90) \<or> n = 95 \<or> (97 \<le> n \<and> n \<le> 122)
         \<or> n = 170 \<or> n = 178 \<or> n = 179 \<or> n = 181 \<or> n = 185 \<or> n = 186
         \<or> (188 \<le> n \<and> n \<le> 190) \<or> (192 \<le> n \<and> n \<le> 214) \<or> (216 \<le> n \<and> n \<le> 246)
         \<or> (248 \<le> n \<and> n \<le> 255))"

abbreviation newline :: char where
  "newline \<equiv> CHR ''\<newline>''"

lemma is_space_newline [pp_simps, simp]: "is_space newline"
  by (simp add: is_space_def)

lemma word_not_space [pp_simps]: "is_word c \<Longrightarrow> \<not> is_space c"
  by (auto simp: is_word_def is_space_def Let_def)

lemma takeWhile_upto_newline [pp_simps]:
  "newline \<notin> set xs \<Longrightarrow> takeWhile (\<lambda>c. c \<noteq> newline) (xs @ newline # ys) = xs"
  by (induction xs) auto

section \<open>Lines of a file\<close>

text \<open>
  \<open>f.readlines()\<close> on a file opened in text mode: the text (after the newline
  translation of the \<open>open\<close> call) is cut after every newline; a last line without
  newline is kept, an empty text has no lines.
\<close>

fun readlines_acc :: "string \<Rightarrow> string \<Rightarrow> string list" where
  "readlines_acc cur [] = (if cur = [] then [] else [cur])"
| "readlines_acc cur (c # s) =
     (if c = newline then (cur @ [c]) # readlines_acc [] s else readlines_acc (cur @ [c]) s)"

definition readlines :: "string \<Rightarrow> string list" where
  "readlines s = readlines_acc [] s"

lemma concat_readlines_acc: "concat (readlines_acc cur s) = cur @ s"
  by (induction cur s rule: readlines_acc.induct) auto

lemma readlines_acc_nonempty: "l \<in> set (readlines_acc cur s) \<Longrightarrow> l \<noteq> []"
  by (induction cur s rule: readlines_acc.induct) (auto split: if_splits)

lemma readlines_acc_empty_iff: "readlines_acc cur s = [] \<longleftrightarrow> cur = [] \<and> s = []"
  by (induction cur s rule: readlines_acc.induct) auto

section \<open>Python's str.strip()\<close>

definition py_strip :: "string \<Rightarrow> string" where
  "py_strip s = rev (dropWhile is_space (rev (dropWhile is_space s)))"

lemma py_strip_empty_iff [pp_simps]: "py_strip s = [] \<longleftrightarrow> (\<forall>c \<in> set s. is_space c)"
proof -
  have "(\<forall>c \<in> set (dropWhile is_space s). is_space c) \<longleftrightarrow> (\<forall>c \<in> set s. is_space c)"
    by (induction s) auto
  then show ?thesis
    by (simp add: py_strip_def)
qed

section \<open>Decimal rendering of a line number\<close>

text \<open>The text \<open>f'{iline}'\<close> produces for a non-negative integer.\<close>

fun string_of_nat :: "nat \<Rightarrow> string" where
  "string_of_nat n =
     (if n < 10 then [char_of (48 + n)]
      else string_of_nat (n div 10) @ [char_of (48 + n mod 10)])"

declare string_of_nat.simps [simp del]

text \<open>Reading the digits back (the consumer's side of the line marker).\<close>

fun digits_value :: "nat \<Rightarrow> string \<Rightarrow> nat" where
  "digits_value acc [] = acc"
| "digits_value acc (c # s) = digits_value (10 * acc + (of_char c - 48)) s"

lemma of_char_digit [pp_simps]: "d < 10 \<Longrightarrow> of_char (char_of (48 + d) :: char) = (48 + d :: nat)"
  by simp

lemma digits_value_append: "digits_value acc (s @ t) = digits_value (digits_value acc s) t"
  by (induction s arbitrary: acc) auto

lemma digits_value_string_of_nat: "digits_value 0 (string_of_nat n) = n"
proof (induction n rule: string_of_nat.induct)
  case (1 n)
  show ?case
  proof (cases "n < 10")
    case True
    then show ?thesis by (simp add: string_of_nat.simps [of n] of_char_digit)
  next
    case False
    then have "digits_value 0 (string_of_nat n)
        = 10 * digits_value 0 (string_of_nat (n div 10)) + n mod 10"
      by (simp add: string_of_nat.simps [of n] digits_value_append of_char_digit)
    with "1" False show ?thesis by simp
  qed
qed

lemma string_of_nat_inj [pp_simps]: "string_of_nat m = string_of_nat n \<longleftrightarrow> m = n"
  by (metis digits_value_string_of_nat)

end
