(* ===== verification/CondStack.thy ===== *)
theory CondStack
  imports Prelude
begin

text \<open>
  The conditional stack of \<open>process_file\<close> (src/c-preprocess.py): the two parallel
  Python lists \<open>ifs\<close> and \<open>allow_else\<close>, the query \<open>is_valid\<close>, the push
  \<open>add_if\<close>, and the updates made by \<open>#endif\<close>, \<open>#else\<close> and \<open>#elif\<close>.
  A Python list used as a stack (\<open>append\<close>, \<open>pop\<close>, \<open>[-1]\<close>) is a HOL list
  whose head is the top, so \<open>ifs[-1]\<close> is the head of \<open>ifs\<close>. Every read of
  \<open>[-1]\<close> on an empty list raises in Python and is \<open>None\<close> here.

  The theory proves that every operation keeps the stack invariant \<open>cs_inv\<close>, that
  the top flag is the conjunction of all frames (the push-time propagation of
  inactivity), and that the implementation refines the naive stack that keeps each
  block's own branch flag and checks all ancestors at query time.
\<close>

section \<open>State and operations\<close>

record cstack =
  ifs :: "bool list"
  allow_else :: "bool list"

definition empty_cstack :: cstack where
  "empty_cstack = \<lparr>ifs = [], allow_else = []\<rparr>"

definition is_valid :: "cstack \<Rightarrow> bool" where
  "is_valid cs = (case ifs cs of [] \<Rightarrow> True | c # _ \<Rightarrow> c)"

definition add_if :: "bool \<Rightarrow> cstack \<Rightarrow> cstack" where
  "add_if cond cs =
     (if is_valid cs then \<lparr>ifs = cond # ifs cs, allow_else = (\<not> cond) # allow_else cs\<rparr>
      else \<lparr>ifs = False # ifs cs, allow_else = False # allow_else cs\<rparr>)"

text \<open>\<open>assert ifs; ifs.pop(); allow_else.pop()\<close>\<close>

definition endif_op :: "cstack \<Rightarrow> cstack option" where
  "endif_op cs =
     (case (ifs cs, allow_else cs) of
        (_ # is, _ # as) \<Rightarrow> Some \<lparr>ifs = is, allow_else = as\<rparr>
      | _ \<Rightarrow> None)"

text \<open>\<open>ifs[-1] = True; allow_else[-1] = False\<close>, shared by \<open>#else\<close> and \<open>#elif\<close>.\<close>

definition take_branch :: "cstack \<Rightarrow> cstack option" where
  "take_branch cs =
     (case (ifs cs, allow_else cs) of
        (_ # is, _ # as) \<Rightarrow> Some \<lparr>ifs = True # is, allow_else = False # as\<rparr>
      | _ \<Rightarrow> None)"

text \<open>\<open>assert ifs; if allow_else[-1]: ...\<close>; otherwise nothing changes.\<close>

definition else_op :: "cstack \<Rightarrow> cstack option" where
  "else_op cs =
     (case ifs cs of
        [] \<Rightarrow> None
      | _ \<Rightarrow> (case allow_else cs of
               [] \<Rightarrow> None
             | a # _ \<Rightarrow> if a then take_branch cs else Some cs))"

text \<open>The guard \<open>not allow_else[-1]\<close> read by \<open>#elif\<close> before its condition.\<close>

definition elif_allowed :: "cstack \<Rightarrow> bool option" where
  "elif_allowed cs = (case allow_else cs of [] \<Rightarrow> None | a # _ \<Rightarrow> Some a)"

text \<open>
  The conditional directives as operations on the stack, with the condition already
  evaluated: \<open>#if\<close>, \<open>#ifdef\<close> and \<open>#ifndef\<close> push, \<open>#elif\<close> takes the
  branch when allowed and true.
\<close>

datatype cond_op = PushIf bool | ElseOp | ElifOp bool | EndifOp

fun cs_step :: "cstack \<Rightarrow> cond_op \<Rightarrow> cstack option" where
  "cs_step cs (PushIf c) = Some (add_if c cs)"
| "cs_step cs ElseOp = else_op cs"
| "cs_step cs (ElifOp c) =
     (case elif_allowed cs of
        None \<Rightarrow> None
      | Some False \<Rightarrow> Some cs
      | Some True \<Rightarrow> (if c then take_branch cs else Some cs))"
| "cs_step cs EndifOp = endif_op cs"

fun cs_run :: "cstack \<Rightarrow> cond_op list \<Rightarrow> cstack option" where
  "cs_run cs [] = Some cs"
| "cs_run cs (op # ops) = (case cs_step cs op of None \<Rightarrow> None | Some cs' \<Rightarrow> cs_run cs' ops)"

inductive cs_reachable :: "cstack \<Rightarrow> bool" where
  start: "cs_reachable empty_cstack"
| step: "cs_reachable cs \<Longrightarrow> cs_step cs op = Some cs' \<Longrightarrow> cs_reachable cs'"

text \<open>
  Well-nested sequences of conditional directives, counting the open blocks: every
  \<open>#else\<close>, \<open>#elif\<close> and \<open>#endif\<close> has an open block, and none is left open at
  the end.
\<close>

fun nested :: "nat \<Rightarrow> cond_op list \<Rightarrow> bool" where
  "nested d [] = (d = 0)"
| "nested d (PushIf c # ops) = nested (Suc d) ops"
| "nested d (ElseOp # ops) = (d \<noteq> 0 \<and> nested d ops)"
| "nested d (ElifOp c # ops) = (d \<noteq> 0 \<and> nested d ops)"
| "nested d (EndifOp # ops) = (d \<noteq> 0 \<and> nested (d - 1) ops)"

section \<open>The naive reference stack\<close>

text \<open>
  Each frame keeps the block's own branch flag and whether a later \<open>#else\<close> or
  \<open>#elif\<close> may still take a branch; activation is checked over all frames at
  query time. The frame is pushed the same way whatever the enclosing activation.
\<close>

type_synonym nframe = "bool \<times> bool"

fun ns_step :: "nframe list \<Rightarrow> cond_op \<Rightarrow> nframe list option" where
  "ns_step fs (PushIf c) = Some ((c, \<not> c) # fs)"
| "ns_step [] ElseOp = None"
| "ns_step ((l, a) # fs) ElseOp = Some (if a then (True, False) # fs else (l, a) # fs)"
| "ns_step [] (ElifOp c) = None"
| "ns_step ((l, a) # fs) (ElifOp c) = Some (if a \<and> c then (True, False) # fs else (l, a) # fs)"
| "ns_step [] EndifOp = None"
| "ns_step (_ # fs) EndifOp = Some fs"

fun ns_run :: "nframe list \<Rightarrow> cond_op list \<Rightarrow> nframe list option" where
  "ns_run fs [] = Some fs"
| "ns_run fs (op # ops) = (case ns_step fs op of None \<Rightarrow> None | Some fs' \<Rightarrow> ns_run fs' ops)"

definition ns_active :: "nframe list \<Rightarrow> bool" where
  "ns_active fs = list_all fst fs"

text \<open>
  The implementation stack that corresponds to a naive one: a frame keeps its own
  flags where all frames below it are active, and is \<open>(False, False)\<close> elsewhere.
\<close>

fun propagate :: "nframe list \<Rightarrow> cstack" where
  "propagate [] = empty_cstack"
| "propagate ((l, a) # fs) =
     (let cs = propagate fs
      in if ns_active fs then \<lparr>ifs = l # ifs cs, allow_else = a # allow_else cs\<rparr>
         else \<lparr>ifs = False # ifs cs, allow_else = False # allow_else cs\<rparr>)"

section \<open>The stack invariant\<close>

text \<open>
  Both lists have the same length; an active frame has only active frames below it;
  a frame whose \<open>#else\<close> is still allowed is inactive and has only active frames
  below it.
\<close>

fun frames_ok :: "bool list \<Rightarrow> bool list \<Rightarrow> bool" where
  "frames_ok [] [] = True"
| "frames_ok (i # is) (a # as) =
     (frames_ok is as \<and> (i \<longrightarrow> list_all id is) \<and> (a \<longrightarrow> \<not> i \<and> list_all id is))"
| "frames_ok _ _ = False"

definition cs_inv :: "cstack \<Rightarrow> bool" where
  "cs_inv cs = frames_ok (ifs cs) (allow_else cs)"

lemmas cs_defs [pp_simps] = is_valid_def add_if_def endif_op_def take_branch_def else_op_def
  elif_allowed_def empty_cstack_def

lemma frames_ok_length: "frames_ok xs ys \<Longrightarrow> length xs = length ys"
  by (induction xs ys rule: frames_ok.induct) auto

lemma is_valid_conj: "cs_inv cs \<Longrightarrow> is_valid cs = list_all id (ifs cs)"
  by (cases "ifs cs"; cases "allow_else cs") (auto simp: cs_inv_def is_valid_def)

lemma add_if_inv: "cs_inv cs \<Longrightarrow> cs_inv (add_if c cs)"
  by (cases "ifs cs"; cases "allow_else cs") (auto simp: cs_inv_def add_if_def is_valid_def)

lemma endif_op_inv: "cs_inv cs \<Longrightarrow> endif_op cs = Some cs' \<Longrightarrow> cs_inv cs'"
  by (cases "ifs cs"; cases "allow_else cs") (auto simp: cs_inv_def endif_op_def)

lemma take_branch_inv:
  "cs_inv cs \<Longrightarrow> elif_allowed cs = Some True \<Longrightarrow> take_branch cs = Some cs' \<Longrightarrow> cs_inv cs'"
  by (cases "ifs cs"; cases "allow_else cs") (auto simp: cs_inv_def take_branch_def elif_allowed_def)

lemma else_op_inv: "cs_inv cs \<Longrightarrow> else_op cs = Some cs' \<Longrightarrow> cs_inv cs'"
  by (cases "ifs cs"; cases "allow_else cs")
    (auto simp: cs_inv_def else_op_def take_branch_def split: if_splits)

lemma cs_step_inv: "cs_inv cs \<Longrightarrow> cs_step cs op = Some cs' \<Longrightarrow> cs_inv cs'"
proof (cases op)
  case (ElifOp c)
  assume inv: "cs_inv cs" and st: "cs_step cs op = Some cs'"
  with ElifOp show ?thesis
    by (auto split: option.splits bool.splits if_splits intro: take_branch_inv)
qed (auto intro: add_if_inv endif_op_inv else_op_inv)

lemma cs_reachable_inv: "cs_reachable cs \<Longrightarrow> cs_inv cs"
proof (induction rule: cs_reachable.induct)
  case start
  show ?case by (simp add: cs_inv_def empty_cstack_def)
next
  case (step cs op cs')
  then show ?case by (blast intro: cs_step_inv)
qed

section \<open>Refinement of the naive stack\<close>

lemma is_valid_propagate [pp_simps]: "is_valid (propagate fs) = ns_active fs"
proof (cases fs)
  case (Cons f fs')
  then show ?thesis
    by (cases f) (simp add: is_valid_def ns_active_def Let_def)
qed (simp add: is_valid_def ns_active_def empty_cstack_def)

lemma cs_step_propagate: "cs_step (propagate fs) op = map_option propagate (ns_step fs op)"
proof (cases fs)
  case Nil
  then show ?thesis
    by (cases op) (simp_all add: cs_defs ns_active_def)
next
  case (Cons f fs')
  obtain l a where f: "f = (l, a)" by fastforce
  show ?thesis
    using Cons f
    by (cases op; cases a) (auto simp: cs_defs ns_active_def Let_def is_valid_propagate)
qed

lemma cs_run_propagate: "cs_run (propagate fs) ops = map_option propagate (ns_run fs ops)"
  by (induction ops arbitrary: fs) (auto simp: cs_step_propagate split: option.splits)

fun op_delta :: "cond_op \<Rightarrow> int" where
  "op_delta (PushIf _) = 1"
| "op_delta ElseOp = 0"
| "op_delta (ElifOp _) = 0"
| "op_delta EndifOp = -1"

lemma cs_step_depth:
  "cs_step cs op = Some cs' \<Longrightarrow> int (length (ifs cs')) = int (length (ifs cs)) + op_delta op"
  by (cases op) (auto simp: cs_defs split: list.splits option.splits bool.splits if_splits)

lemma cs_run_depth:
  "cs_run cs ops = Some cs' \<Longrightarrow> int (length (ifs cs')) = int (length (ifs cs)) + sum_list (map op_delta ops)"
proof (induction ops arbitrary: cs)
  case Nil
  then show ?case by simp
next
  case (Cons op ops)
  then obtain cs1 where s1: "cs_step cs op = Some cs1" and r: "cs_run cs1 ops = Some cs'"
    by (auto split: option.splits)
  from s1 have "int (length (ifs cs1)) = int (length (ifs cs)) + op_delta op"
    by (rule cs_step_depth)
  with Cons.IH [OF r] show ?case by simp
qed

text \<open>A directive fails on the stack exactly when it needs an open block and there
  is none.\<close>

lemma cs_step_None_iff:
  "cs_inv cs \<Longrightarrow> cs_step cs op = None \<longleftrightarrow> ((\<forall>c. op \<noteq> PushIf c) \<and> ifs cs = [])"
  by (cases op; cases "ifs cs"; cases "allow_else cs")
    (auto simp: cs_inv_def cs_defs split: bool.splits)

lemma cs_run_empty_iff_nested:
  "cs_inv cs \<Longrightarrow>
   (\<exists>cs'. cs_run cs ops = Some cs' \<and> ifs cs' = []) \<longleftrightarrow> nested (length (ifs cs)) ops"
proof (induction ops arbitrary: cs)
  case Nil
  then show ?case by simp
next
  case (Cons op ops)
  show ?case
  proof (cases "cs_step cs op")
    case None
    then have "(\<forall>c. op \<noteq> PushIf c) \<and> ifs cs = []"
      using cs_step_None_iff [OF Cons.prems, of op] by simp
    with None show ?thesis by (cases op) auto
  next
    case (Some cs1)
    have ih: "(\<exists>cs'. cs_run cs1 ops = Some cs' \<and> ifs cs' = []) \<longleftrightarrow> nested (length (ifs cs1)) ops"
      using cs_step_inv [OF Cons.prems Some] by (rule Cons.IH)
    have d: "int (length (ifs cs1)) = int (length (ifs cs)) + op_delta op"
      using Some by (rule cs_step_depth)
    have ne: "(\<forall>c. op \<noteq> PushIf c) \<Longrightarrow> ifs cs \<noteq> []"
      using cs_step_None_iff [OF Cons.prems, of op] Some by auto
    show ?thesis
    proof (cases op)
      case EndifOp
      with d ne have "length (ifs cs1) = length (ifs cs) - 1" by auto
      with EndifOp Some ih ne show ?thesis by simp
    next
      case (PushIf c)
      with d have "length (ifs cs1) = Suc (length (ifs cs))" by simp
      with PushIf Some ih show ?thesis by simp
    qed (use Some ih d ne in auto)
  qed
qed

section \<open>Properties\<close>

text \<open>
  C1. The activation of the implementation is the naive one: after any sequence of
  conditional directives processed from the empty stack, the top-of-stack flag
  \<open>is_valid\<close> equals the conjunction of the branch flags of all open blocks, and
  the implementation fails (an \<open>#else\<close>, \<open>#elif\<close> or \<open>#endif\<close> with no open
  block) exactly where the naive stack fails.
\<close>

theorem activation_refines:
  "map_option is_valid (cs_run empty_cstack ops) = map_option ns_active (ns_run [] ops)"
proof -
  have "cs_run empty_cstack ops = map_option propagate (ns_run [] ops)"
    using cs_run_propagate [of "[]" ops] by simp
  then show ?thesis
    by (cases "ns_run [] ops") (simp_all add: is_valid_propagate)
qed

lemma cs_run_reachable: "cs_reachable cs \<Longrightarrow> cs_run cs ops = Some cs' \<Longrightarrow> cs_reachable cs'"
proof (induction ops arbitrary: cs)
  case Nil
  then show ?case by simp
next
  case (Cons op ops)
  then obtain cs1 where s1: "cs_step cs op = Some cs1" and r: "cs_run cs1 ops = Some cs'"
    by (auto split: option.splits)
  from Cons.prems(1) s1 have "cs_reachable cs1" by (rule cs_reachable.step)
  then show ?case using r by (rule Cons.IH)
qed

text \<open>
  C12. Every stack reachable from the empty one by conditional directives satisfies
  the invariant \<open>cs_inv\<close>, and its top flag is the conjunction of all its flags:
  a block is active exactly when it and all enclosing blocks are.
\<close>

theorem reachable_top_is_conjunction:
  "cs_reachable cs \<Longrightarrow> cs_inv cs \<and> is_valid cs = list_all id (ifs cs)"
  using cs_reachable_inv is_valid_conj by blast

text \<open>
  C13. The depth of the stack is the syntactic nesting depth: after a sequence of
  conditional directives from the empty stack it is the number of pushes minus the
  number of \<open>#endif\<close>s, whatever the conditions were, and the two parallel lists
  keep the same length.
\<close>

theorem stack_depth_is_nesting:
  assumes run: "cs_run empty_cstack ops = Some cs"
  shows "int (length (ifs cs)) = sum_list (map op_delta ops) \<and> length (allow_else cs) = length (ifs cs)"
proof -
  have "int (length (ifs cs)) = int (length (ifs empty_cstack)) + sum_list (map op_delta ops)"
    by (rule cs_run_depth [OF run])
  moreover have "cs_reachable cs" by (rule cs_run_reachable [OF cs_reachable.start run])
  then have "cs_inv cs" by (rule cs_reachable_inv)
  then have "length (ifs cs) = length (allow_else cs)" by (simp add: cs_inv_def frames_ok_length)
  ultimately show ?thesis by (simp add: empty_cstack_def)
qed

text \<open>
  C29. The conditional directives of a file run from the empty stack without error
  and leave it empty exactly when they are well nested: every \<open>#else\<close>,
  \<open>#elif\<close> and \<open>#endif\<close> closes or continues an open block and no block is
  left open, whatever the conditions. So \<open>#endif\<close> always pops the frame its
  block pushed.
\<close>

theorem balanced_iff_empty_at_end:
  "(\<exists>cs. cs_run empty_cstack ops = Some cs \<and> ifs cs = []) \<longleftrightarrow> nested 0 ops"
  using cs_run_empty_iff_nested [of empty_cstack ops] by (simp add: cs_inv_def empty_cstack_def)

end
