(* ===== verification/Directive.thy ===== *)
theory Directive
  imports Prelude
begin

text \<open>
  The directive classifier of src/c-preprocess.py: the regular expression
  \<open>command_re\<close> that recognises a directive line and splits it into its keyword
  (\<open>m.group(1)\<close>) and the rest (\<open>m.group(2)\<close>), and the regular expressions
  \<open>include_re\<close>, \<open>ifdef_re\<close>, \<open>undef_re\<close>, \<open>define_re\<close>, \<open>if_re\<close>,
  \<open>function_re\<close> and \<open>pragma_re\<close> that \<open>process_file\<close> applies to the rest
  with \<open>.match\<close>. Each regular expression is a matcher written out by hand: a
  greedy repetition is a \<open>takeWhile\<close>/\<open>dropWhile\<close>, an alternation is tried
  in the pattern's order, and a failed match is \<open>None\<close>. None of these patterns
  can succeed by backtracking into a repetition (each repetition is followed by a
  character it cannot match), so the greedy reading is the regular expression's.
\<close>

section \<open>The keyword of a directive line\<close>

datatype command = CInclude | CIfdef | CIfndef | CDefine | CIf | CEndif | CElse | CElif
  | CUndef | CPragma

text \<open>The alternation of \<open>command_re_str\<close>, in its order.\<close>

definition command_keywords :: "(string \<times> command) list" where
  "command_keywords =
     [(''include'', CInclude), (''ifdef'', CIfdef), (''ifndef'', CIfndef),
      (''define'', CDefine), (''if'', CIf), (''endif'', CEndif), (''else'', CElse),
      (''elif'', CElif), (''undef'', CUndef), (''pragma'', CPragma)]"

fun match_keyword :: "(string \<times> command) list \<Rightarrow> string \<Rightarrow> (command \<times> string) option" where
  "match_keyword [] s = None"
| "match_keyword ((k, c) # ks) s =
     (if take (length k) s = k then Some (c, drop (length k) s) else match_keyword ks s)"

text \<open>Group 2 of \<open>command_re\<close>, \<open>(\s*(.*))\<close>: the leading whitespace, then up to the
  first newline.\<close>

definition rest_group :: "string \<Rightarrow> string" where
  "rest_group s = takeWhile is_space s @ takeWhile (\<lambda>c. c \<noteq> newline) (dropWhile is_space s)"

text \<open>\<open>command_re.match(line)\<close>: \<open>\s*\#(include|...|pragma)(\s*(.*))\<close>.\<close>

definition match_command :: "string \<Rightarrow> (command \<times> string) option" where
  "match_command line =
     (case dropWhile is_space line of
        [] \<Rightarrow> None
      | c # r \<Rightarrow>
          if c = CHR ''#'' then map_option (\<lambda>(cmd, r'). (cmd, rest_group r')) (match_keyword command_keywords r)
          else None)"

section \<open>The arguments of a directive\<close>

text \<open>\<open>\s+\<close>: at least one whitespace character, all of them consumed.\<close>

definition skip_ws1 :: "string \<Rightarrow> string option" where
  "skip_ws1 s = (case s of [] \<Rightarrow> None | c # _ \<Rightarrow> if is_space c then Some (dropWhile is_space s) else None)"

text \<open>\<open>(\w+)\<close> and what follows it.\<close>

definition match_ident :: "string \<Rightarrow> (string \<times> string) option" where
  "match_ident s = (let w = takeWhile is_word s in if w = [] then None else Some (w, dropWhile is_word s))"

text \<open>\<open>(\S+)\<close>.\<close>

definition match_nonspace :: "string \<Rightarrow> string option" where
  "match_nonspace s = (let v = takeWhile (\<lambda>c. \<not> is_space c) s in if v = [] then None else Some v)"

text \<open>\<open>ifdef_re\<close> and \<open>undef_re\<close>, \<open>\s+(\w+)\<close>: group 1.\<close>

definition parse_ident :: "string \<Rightarrow> string option" where
  "parse_ident rest = (case skip_ws1 rest of None \<Rightarrow> None | Some s \<Rightarrow> map_option fst (match_ident s))"

text \<open>\<open>"[^"]*"\<close> and \<open><[^>]*>\<close>: an opening delimiter, then up to the first
  closing one; the group keeps both delimiters.\<close>

definition match_delimited :: "char \<Rightarrow> char \<Rightarrow> string \<Rightarrow> string option" where
  "match_delimited op cl s =
     (case s of
        [] \<Rightarrow> None
      | x # r \<Rightarrow>
          if x = op then
            (let body = takeWhile (\<lambda>y. y \<noteq> cl) r
             in if length body < length r then Some (op # body @ [cl]) else None)
          else None)"

abbreviation dquote :: char where
  "dquote \<equiv> CHR 0x22"

text \<open>\<open>include_re\<close>, \<open>\s+("[^"]*"|<[^>]*>)\<close>: group 1.\<close>

definition parse_include :: "string \<Rightarrow> string option" where
  "parse_include rest =
     (case skip_ws1 rest of
        None \<Rightarrow> None
      | Some s \<Rightarrow>
          (case match_delimited dquote dquote s of
             Some g \<Rightarrow> Some g
           | None \<Rightarrow> match_delimited CHR ''<'' CHR ''>'' s))"

text \<open>\<open>is_system = path[0] == '<'\<close>; the group is never empty.\<close>

definition include_is_system :: "string \<Rightarrow> bool" where
  "include_is_system g = (case g of [] \<Rightarrow> False | x # _ \<Rightarrow> x = CHR ''<'')"

text \<open>\<open>path = path[1:-1]\<close>\<close>

definition include_path :: "string \<Rightarrow> string" where
  "include_path g = butlast (tl g)"

text \<open>\<open>define_re\<close>, \<open>\s+(\w+)(\s+(\S+))?\<close>: groups 1 and 3.\<close>

definition parse_define :: "string \<Rightarrow> (string \<times> string option) option" where
  "parse_define rest =
     (case skip_ws1 rest of
        None \<Rightarrow> None
      | Some s \<Rightarrow>
          (case match_ident s of
             None \<Rightarrow> None
           | Some (k, r) \<Rightarrow>
               Some (k, (case skip_ws1 r of None \<Rightarrow> None | Some r' \<Rightarrow> match_nonspace r'))))"

text \<open>\<open>if_re\<close>, \<open>\s+((?:\S+|defined\(\w+\)))\<close>: group 1. The first alternative
  \<open>\S+\<close> matches whenever the second would, so the group is the first run of
  non-whitespace.\<close>

definition parse_if :: "string \<Rightarrow> string option" where
  "parse_if rest = (case skip_ws1 rest of None \<Rightarrow> None | Some s \<Rightarrow> match_nonspace s)"

text \<open>\<open>function_re\<close>, \<open>(defined)\((\w+)\)\<close>: groups 1 and 2.\<close>

definition parse_function :: "string \<Rightarrow> (string \<times> string) option" where
  "parse_function s =
     (if take 8 s = ''defined('' then
        (case match_ident (drop 8 s) of
           None \<Rightarrow> None
         | Some (a, r) \<Rightarrow> if take 1 r = '')'' then Some (''defined'', a) else None)
      else None)"

text \<open>\<open>pragma_re\<close>, \<open>\s+(once)\<close>: group 1.\<close>

definition parse_pragma :: "string \<Rightarrow> string option" where
  "parse_pragma rest =
     (case skip_ws1 rest of None \<Rightarrow> None | Some s \<Rightarrow> if take 4 s = ''once'' then Some ''once'' else None)"

lemmas directive_defs [pp_simps] = match_command_def rest_group_def skip_ws1_def match_ident_def
  match_nonspace_def parse_ident_def match_delimited_def parse_include_def include_is_system_def include_path_def
  parse_define_def parse_if_def parse_function_def parse_pragma_def command_keywords_def

section \<open>Matching runs of characters\<close>

lemma words_prefix:
  assumes "\<forall>c \<in> set a. is_word c" and "\<not> is_word x"
  shows "takeWhile is_word (a @ x # r) = a" and "dropWhile is_word (a @ x # r) = x # r"
  using assms by (induction a) auto

lemma nonspace_words:
  assumes "\<forall>c \<in> set a. is_word c"
  shows "takeWhile (\<lambda>c. \<not> is_space c) (a @ r) = a @ takeWhile (\<lambda>c. \<not> is_space c) r"
  using assms by (induction a) (auto dest: word_not_space)

lemma spaces_prefix:
  assumes "\<forall>c \<in> set ws. is_space c" and "\<not> is_space x"
  shows "dropWhile is_space (ws @ x # r) = x # r"
  using assms by (induction ws) auto

lemma nonspace_all:
  "\<forall>x \<in> set v. \<not> is_space x \<Longrightarrow> takeWhile (\<lambda>c. \<not> is_space c) (v @ r) = v @ takeWhile (\<lambda>c. \<not> is_space c) r"
  by (induction v) auto

lemma space_not_d_n: "is_space y \<Longrightarrow> y \<noteq> CHR ''d'' \<and> y \<noteq> CHR ''n''"
  by (auto simp: is_space_def)

lemma space_not_letter: "is_space c \<Longrightarrow> c \<notin> set ''deipu''"
  by (auto simp: is_space_def)

text \<open>
  The keywords are tried in the order of the alternation; only \<open>if\<close> is a prefix
  of keywords tried before it (\<open>ifdef\<close>, \<open>ifndef\<close>), so a keyword followed by
  anything but \<open>d\<close> or \<open>n\<close> is recognised as itself.
\<close>

lemma match_keyword_delimited:
  assumes "(k, c) \<in> set command_keywords" and "r = [] \<or> (hd r \<noteq> CHR ''d'' \<and> hd r \<noteq> CHR ''n'')"
  shows "match_keyword command_keywords (k @ r) = Some (c, r)"
proof (cases r)
  case Nil
  with assms(1) show ?thesis by (simp add: command_keywords_def) (elim disjE; simp)
next
  case (Cons y r')
  with assms show ?thesis by (simp add: command_keywords_def) (elim disjE; simp)
qed

section \<open>Properties\<close>

text \<open>
  C14. Every directive keyword is recognised as itself when it follows \<open>#\<close> (after
  any leading whitespace) and is followed by whitespace or the end of the line; the
  rest handed to the directive's own pattern is group 2 of \<open>command_re\<close>.
\<close>

theorem keyword_classification:
  assumes kw: "(k, c) \<in> set command_keywords" and ws: "\<forall>x \<in> set ws. is_space x"
    and r: "r = [] \<or> is_space (hd r)"
  shows "match_command (ws @ CHR ''#'' # k @ r) = Some (c, rest_group r)"
proof -
  have h: "\<not> is_space (CHR ''#'')" by (simp add: is_space_def)
  have d: "dropWhile is_space (ws @ CHR ''#'' # k @ r) = CHR ''#'' # k @ r"
    by (rule spaces_prefix [OF ws h])
  from r have "r = [] \<or> (hd r \<noteq> CHR ''d'' \<and> hd r \<noteq> CHR ''n'')"
    using space_not_d_n by blast
  with kw have "match_keyword command_keywords (k @ r) = Some (c, r)"
    by (rule match_keyword_delimited)
  with d show ?thesis by (simp add: match_command_def)
qed

text \<open>
  C15. A directive written with whitespace between \<open>#\<close> and its keyword
  (\<open>#  ifdef X\<close>, \<open># include "a.h"\<close>) is not recognised: the line is plain text,
  emitted when active and never executed.
\<close>

theorem hash_space_is_text:
  assumes ws: "\<forall>x \<in> set ws. is_space x" and c: "is_space c"
  shows "match_command (ws @ CHR ''#'' # c # r) = None"
proof -
  have h: "\<not> is_space (CHR ''#'')" by (simp add: is_space_def)
  have d: "dropWhile is_space (ws @ CHR ''#'' # c # r) = CHR ''#'' # c # r"
    by (rule spaces_prefix [OF ws h])
  from c have "c \<notin> set ''deipu''" by (rule space_not_letter)
  then have "match_keyword command_keywords (c # r) = None"
    by (simp add: command_keywords_def)
  with d show ?thesis by (simp add: match_command_def)
qed

text \<open>
  C27. Print and parse agree for \<open>#define\<close>: the line
  \<open>#define NAME VALUE\<close> for an identifier \<open>NAME\<close> and a token \<open>VALUE\<close>
  without whitespace is classified as \<open>define\<close> and \<open>define_re\<close> gives back
  exactly the name and the value.
\<close>

theorem define_directive_roundtrip:
  assumes k: "k \<noteq> []" "\<forall>x \<in> set k. is_word x" and v: "v \<noteq> []" "\<forall>x \<in> set v. \<not> is_space x"
  shows "(case match_command (''#define '' @ k @ CHR '' '' # v @ [newline]) of
            Some (CDefine, rest) \<Rightarrow> parse_define rest | _ \<Rightarrow> None) = Some (k, Some v)"
proof -
  have sp: "is_space (CHR '' '')" and h: "\<not> is_space (CHR ''#'')" and nw: "\<not> is_word (CHR '' '')"
    by (simp_all add: is_space_def is_word_def)
  obtain x k' where kx: "k = x # k'" using k(1) by (cases k) auto
  with k(2) have x: "\<not> is_space x" by (auto dest: word_not_space)
  obtain y v' where vy: "v = y # v'" using v(1) by (cases v) auto
  with v(2) have y: "\<not> is_space y" by auto
  have nl: "newline \<notin> set (k @ CHR '' '' # v)"
    using k(2) v(2) word_not_space by (auto simp: is_word_def)
  have mk: "match_keyword command_keywords (''define'' @ CHR '' '' # k @ CHR '' '' # v @ [newline])
      = Some (CDefine, CHR '' '' # k @ CHR '' '' # v @ [newline])"
    by (simp add: command_keywords_def)
  have rg: "rest_group (CHR '' '' # k @ CHR '' '' # v @ [newline]) = CHR '' '' # k @ CHR '' '' # v"
    using sp x kx nl takeWhile_upto_newline [of "k @ CHR '' '' # v" "[]"] by (simp add: rest_group_def)
  have pd: "parse_define (CHR '' '' # k @ CHR '' '' # v) = Some (k, Some v)"
    using sp x kx y vy k words_prefix [OF k(2) nw, of v] nonspace_all [OF v(2), of "[]"]
    by (simp add: parse_define_def skip_ws1_def match_ident_def match_nonspace_def)
  show ?thesis
    using h mk rg pd by (simp add: match_command_def)
qed
text \<open>
  C28. Print and parse agree for \<open>#include\<close>: \<open>#include "p"\<close> gives back the path
  \<open>p\<close> as a local include and \<open>#include <p>\<close> as a system include, for a path
  without newline, double quote or \<open>>\<close>.
\<close>

theorem include_directive_roundtrip:
  assumes "newline \<notin> set p" and dq: "dquote \<notin> set p" and gt: "CHR ''>'' \<notin> set p"
  shows "(case match_command (''#include '' @ dquote # p @ [dquote, newline]) of
            Some (CInclude, rest) \<Rightarrow> map_option (\<lambda>g. (include_path g, include_is_system g)) (parse_include rest)
          | _ \<Rightarrow> None) = Some (p, False)
       \<and> (case match_command (''#include <'' @ p @ [CHR ''>'', newline]) of
            Some (CInclude, rest) \<Rightarrow> map_option (\<lambda>g. (include_path g, include_is_system g)) (parse_include rest)
          | _ \<Rightarrow> None) = Some (p, True)"
proof -
  have sp: "is_space (CHR '' '')" and h: "\<not> is_space (CHR ''#'')" and q: "\<not> is_space dquote"
    and lt: "\<not> is_space (CHR ''<'')"
    by (simp_all add: is_space_def)
  have "(case match_command (''#include '' @ dquote # p @ [dquote, newline]) of
            Some (CInclude, rest) \<Rightarrow> map_option (\<lambda>g. (include_path g, include_is_system g)) (parse_include rest)
          | _ \<Rightarrow> None) = Some (p, False)"
  proof -
    have body: "takeWhile (\<lambda>y. y \<noteq> dquote) (p @ [dquote]) = p" using dq by (induction p) auto
    have rg: "rest_group (CHR '' '' # dquote # p @ [dquote, newline]) = CHR '' '' # dquote # p @ [dquote]"
      using sp q assms takeWhile_upto_newline [of "dquote # p @ [dquote]" "[]"] by (simp add: rest_group_def)
    show ?thesis
      using h rg body sp q
      by (simp add: match_command_def command_keywords_def parse_include_def skip_ws1_def match_delimited_def
          include_path_def include_is_system_def)
  qed
  moreover have "(case match_command (''#include <'' @ p @ [CHR ''>'', newline]) of
            Some (CInclude, rest) \<Rightarrow> map_option (\<lambda>g. (include_path g, include_is_system g)) (parse_include rest)
          | _ \<Rightarrow> None) = Some (p, True)"
  proof -
    have body: "takeWhile (\<lambda>y. y \<noteq> CHR ''>'') (p @ [CHR ''>'']) = p" using gt by (induction p) auto
    have rg: "rest_group (CHR '' '' # CHR ''<'' # p @ [CHR ''>'', newline]) = CHR '' '' # CHR ''<'' # p @ [CHR ''>'']"
      using sp lt assms takeWhile_upto_newline [of "CHR ''<'' # p @ [CHR ''>'']" "[]"] by (simp add: rest_group_def)
    show ?thesis
      using h rg body sp lt
      by (simp add: match_command_def command_keywords_def parse_include_def skip_ws1_def match_delimited_def
          include_path_def include_is_system_def)
  qed
  ultimately show ?thesis by (rule conjI)
qed

end
