(* ===== verification/Emitter.thy ===== *)
theory Emitter
  imports Prelude
begin

text \<open>
  The output side of \<open>process_file\<close> (src/c-preprocess.py): the list \<open>res\<close> of
  output pieces, the number \<open>last_iline\<close> of the last emitted source line, the
  marker text \<open>line_str\<close>, the local function \<open>emit\<close>, and the splicing of a
  non-empty sub-result after an \<open>#include\<close>. The loop index \<open>iline\<close>, read by
  \<open>emit\<close> from the enclosing loop, is an explicit argument; so is the text of the
  current file's path, \<open>f'{fp}'\<close>. Line numbers are the 0-based indices of
  \<open>enumerate(src)\<close>.
\<close>

record emitter =
  res :: "string list"
  last_iline :: nat

definition emitter_init :: emitter where
  "emitter_init = \<lparr>res = [], last_iline = 0\<rparr>"

text \<open>\<open>line_str(iline, fp)\<close> is \<open>f'//{fp}\n#line {iline}\n'\<close>.\<close>

definition line_str :: "nat \<Rightarrow> string \<Rightarrow> string" where
  "line_str iline fps = ''//'' @ fps @ [newline] @ ''#line '' @ string_of_nat iline @ [newline]"

text \<open>\<open>emit(s)\<close>: a marker first when \<open>iline != last_iline + 1\<close>.\<close>

definition emit :: "string \<Rightarrow> nat \<Rightarrow> string \<Rightarrow> emitter \<Rightarrow> emitter" where
  "emit fps iline s em =
     \<lparr>res = res em @ (if iline \<noteq> last_iline em + 1 then [line_str iline fps] else []) @ [s],
      last_iline = iline\<rparr>"

text \<open>After \<open>process_file\<close> returns \<open>sub_src\<close> for an include:
  \<open>if sub_src.strip(): res.append(sub_src); res.append(line_str(iline, fp)); set_iline()\<close>.\<close>

definition splice_include :: "string \<Rightarrow> nat \<Rightarrow> string \<Rightarrow> emitter \<Rightarrow> emitter" where
  "splice_include fps iline sub em =
     (if py_strip sub \<noteq> [] then \<lparr>res = res em @ [sub, line_str iline fps], last_iline = iline\<rparr>
      else em)"

text \<open>\<open>''.join(res)\<close>\<close>

definition emitted :: "emitter \<Rightarrow> string" where
  "emitted em = concat (res em)"

lemma emitted_emit [pp_simps]:
  "emitted (emit fps iline s em) =
     emitted em @ (if iline = Suc (last_iline em) then [] else line_str iline fps) @ s"
  by (simp add: emitted_def emit_def)

lemma last_iline_emit [pp_simps]: "last_iline (emit fps iline s em) = iline"
  by (simp add: emit_def)

lemma emitted_splice_include [pp_simps]:
  "emitted (splice_include fps iline sub em) =
     (if py_strip sub = [] then emitted em else emitted em @ sub @ line_str iline fps)"
  by (simp add: emitted_def splice_include_def)

lemma emitted_init [pp_simps]: "emitted emitter_init = []"
  by (simp add: emitted_def emitter_init_def)

text \<open>
  Emitting consecutive source lines after line \<open>i\<close> adds them without any marker:
  the markers appear only at discontinuities.
\<close>

fun emit_from :: "string \<Rightarrow> nat \<Rightarrow> string list \<Rightarrow> emitter \<Rightarrow> emitter" where
  "emit_from fps i [] em = em"
| "emit_from fps i (l # ls) em = emit_from fps (Suc i) ls (emit fps i l em)"

lemma emit_from_contiguous:
  "last_iline em + 1 = i \<Longrightarrow> emitted (emit_from fps i ls em) = emitted em @ concat ls"
  by (induction ls arbitrary: i em) (auto simp: emitted_emit last_iline_emit)

section \<open>Reading a marker back\<close>

text \<open>
  The consumer of the output reads a marker as the path line and the number line.
  \<open>read_marker\<close> takes the text of a marker apart again; on the markers the code
  writes, it gives back the path text and the line number, so a marker identifies
  both (provided the path has no newline).
\<close>

definition read_marker :: "string \<Rightarrow> (string \<times> nat) option" where
  "read_marker s =
     (let p = takeWhile (\<lambda>c. c \<noteq> newline) s; r = drop (Suc (length p)) s
      in if take 2 p = ''//'' \<and> take 6 r = ''#line ''
         then Some (drop 2 p, digits_value 0 (takeWhile (\<lambda>c. c \<noteq> newline) (drop 6 r)))
         else None)"

text \<open>
  A consumer of the output pieces: a marker sets the current position, every other
  piece is attributed the current position, which then moves to the next line.
  \<open>attrib_pos\<close> is the position after a list of pieces.
\<close>

fun attrib :: "(string \<times> nat) option \<Rightarrow> string list \<Rightarrow> ((string \<times> nat) option \<times> string) list" where
  "attrib cur [] = []"
| "attrib cur (p # ps) =
     (case read_marker p of
        Some m \<Rightarrow> attrib (Some m) ps
      | None \<Rightarrow> (cur, p) # attrib (map_option (\<lambda>(f, k). (f, Suc k)) cur) ps)"

fun attrib_pos :: "(string \<times> nat) option \<Rightarrow> string list \<Rightarrow> (string \<times> nat) option" where
  "attrib_pos cur [] = cur"
| "attrib_pos cur (p # ps) =
     (case read_marker p of
        Some m \<Rightarrow> attrib_pos (Some m) ps
      | None \<Rightarrow> attrib_pos (map_option (\<lambda>(f, k). (f, Suc k)) cur) ps)"

lemma string_of_nat_no_newline: "newline \<notin> set (string_of_nat n)"
proof (induction n rule: string_of_nat.induct)
  case (1 n)
  have digit: "char_of (48 + d) \<noteq> newline" if "d < 10" for d :: nat
  proof
    assume eq: "char_of (48 + d) = newline"
    have "of_char (char_of (48 + d) :: char) = (48 + d :: nat)"
      using that by (rule of_char_digit)
    with eq show False by simp
  qed
  show ?case
  proof (cases "n < 10")
    case True
    with digit [of n] show ?thesis by (simp add: string_of_nat.simps [of n])
  next
    case False
    with "1" digit [of "n mod 10"] show ?thesis by (simp add: string_of_nat.simps [of n])
  qed
qed

text \<open>
  C26. A marker can be read back: the path text and the line number that
  \<open>line_str\<close> writes are recovered from the marker's text, for a path without
  newline.
\<close>

theorem marker_roundtrip:
  "newline \<notin> set fps \<Longrightarrow> read_marker (line_str iline fps) = Some (fps, iline)"
proof -
  assume nl: "newline \<notin> set fps"
  have p: "takeWhile (\<lambda>c. c \<noteq> newline) (line_str iline fps) = ''//'' @ fps"
    using nl takeWhile_upto_newline [of "''//'' @ fps"] by (simp add: line_str_def)
  have n: "takeWhile (\<lambda>c. c \<noteq> newline) (string_of_nat iline @ [newline]) = string_of_nat iline"
    using string_of_nat_no_newline [of iline] takeWhile_upto_newline by simp
  show ?thesis
    using p n by (simp add: read_marker_def line_str_def digits_value_string_of_nat)
qed

section \<open>Attribution of emitted lines\<close>

lemma attrib_append:
  "attrib cur (ps @ qs) = attrib cur ps @ attrib (attrib_pos cur ps) qs"
  by (induction cur ps rule: attrib.induct) (auto split: option.splits)

lemma attrib_pos_append:
  "attrib_pos cur (ps @ qs) = attrib_pos (attrib_pos cur ps) qs"
  by (induction cur ps rule: attrib_pos.induct) (auto split: option.splits)

text \<open>A piece with no newline before its end is never read as a marker.\<close>

lemma read_marker_line: "newline \<notin> set (butlast l) \<Longrightarrow> read_marker l = None"
proof (cases l rule: rev_cases)
  case Nil
  then show ?thesis by (simp add: read_marker_def)
next
  case (snoc ys y)
  assume nl: "newline \<notin> set (butlast l)"
  with snoc have ys: "newline \<notin> set ys" by simp
  show ?thesis
  proof (cases "y = newline")
    case True
    with snoc ys show ?thesis
      using takeWhile_upto_newline [OF ys, of "[]"] by (simp add: read_marker_def)
  next
    case False
    with snoc ys have tw: "takeWhile (\<lambda>c. c \<noteq> newline) l = l" by (auto simp: takeWhile_eq_all_conv)
    show ?thesis by (simp add: read_marker_def Let_def tw)
  qed
qed

text \<open>The emitter state a consumer can follow: nothing emitted yet, or the consumer's
  position is the line after \<open>last_iline\<close>.\<close>

definition follows :: "string \<Rightarrow> emitter \<Rightarrow> bool" where
  "follows fps em =
     (res em \<noteq> [] \<and> attrib_pos None (res em) = Some (fps, Suc (last_iline em)))"

lemma attrib_emit:
  assumes fps: "newline \<notin> set fps" and l: "newline \<notin> set (butlast l)"
    and st: "follows fps em \<or> (res em = [] \<and> last_iline em = 0 \<and> i \<noteq> 1)"
  shows "attrib None (res (emit fps i l em)) = attrib None (res em) @ [(Some (fps, i), l)]
    \<and> follows fps (emit fps i l em)"
proof (cases "i = Suc (last_iline em)")
  case True
  with st have f: "follows fps em" by auto
  with True l show ?thesis
    by (auto simp: emit_def attrib_append attrib_pos_append follows_def read_marker_line)
next
  case False
  have m: "read_marker (line_str i fps) = Some (fps, i)" using fps by (rule marker_roundtrip)
  with False l show ?thesis
    by (auto simp: emit_def attrib_append attrib_pos_append follows_def read_marker_line)
qed

lemma attrib_emit_all:
  "newline \<notin> set fps \<Longrightarrow> \<forall>(i, l) \<in> set xs. newline \<notin> set (butlast l) \<Longrightarrow>
   follows fps em \<or> (res em = [] \<and> last_iline em = 0 \<and> (xs = [] \<or> fst (hd xs) \<noteq> 1)) \<Longrightarrow>
   attrib None (res (fold (\<lambda>(i, l). emit fps i l) xs em)) =
     attrib None (res em) @ map (\<lambda>(i, l). (Some (fps, i), l)) xs"
proof (induction xs arbitrary: em)
  case Nil
  then show ?case by simp
next
  case (Cons x xs)
  obtain i l where x: "x = (i, l)" by fastforce
  with Cons.prems have
    e: "attrib None (res (emit fps i l em)) = attrib None (res em) @ [(Some (fps, i), l)]
        \<and> follows fps (emit fps i l em)"
    by (intro attrib_emit) auto
  with Cons.prems x have "attrib None (res (fold (\<lambda>(i, l). emit fps i l) xs (emit fps i l em))) =
      attrib None (res (emit fps i l em)) @ map (\<lambda>(i, l). (Some (fps, i), l)) xs"
    by (intro Cons.IH) auto
  with e x show ?case by simp
qed

text \<open>
  C30. The markers let a reader of the output recover the line number of every
  emitted line: for any sequence of lines emitted into a fresh emitter, at any line
  numbers, reading each marker and counting lines from it attributes every line to
  its own file and 0-based line number, provided the first line emitted is not line
  1 (which gets no marker, as \<open>last_iline\<close> starts at 0).
\<close>

theorem markers_attribute_lines:
  assumes "newline \<notin> set fps" and "\<forall>(i, l) \<in> set xs. newline \<notin> set (butlast l)"
    and "xs = [] \<or> fst (hd xs) \<noteq> 1"
  shows "attrib None (res (fold (\<lambda>(i, l). emit fps i l) xs emitter_init)) =
    map (\<lambda>(i, l). (Some (fps, i), l)) xs"
  using attrib_emit_all [OF assms(1,2), of emitter_init] assms(3) by (simp add: emitter_init_def)

end
