(* ===== verification/Resolver.thy ===== *)
theory Resolver
  imports Prelude
begin

text \<open>
  The include resolver of \<open>process_file\<close> (src/c-preprocess.py): the list of
  directories searched for an \<open>#include\<close> (\<open>these_includes\<close>) and the
  \<open>for include_dir in these_includes\<close> loop that takes the first directory under
  which the path exists. The file system and the \<open>pathlib\<close> operations the code
  calls are a record of functions over an abstract path type \<open>'p\<close>: reading a
  file (\<open>None\<close> where the path does not exist), the parent directory
  (\<open>fp.parent\<close>), joining a directory and a relative path (\<open>include_dir / path\<close>),
  and the text of a path (\<open>f'{fp}'\<close>).
\<close>

record 'p fsys =
  fs_read :: "'p \<Rightarrow> string option"
  fs_parent :: "'p \<Rightarrow> 'p"
  fs_join :: "'p \<Rightarrow> string \<Rightarrow> 'p"
  fs_str :: "'p \<Rightarrow> string"

text \<open>\<open>sub_fp.exists()\<close>\<close>

definition fs_exists :: "'p fsys \<Rightarrow> 'p \<Rightarrow> bool" where
  "fs_exists fs p = (fs_read fs p \<noteq> None)"

text \<open>\<open>these_includes = [fp.parent, *includes] if not is_system else includes\<close>\<close>

definition search_dirs :: "'p fsys \<Rightarrow> 'p \<Rightarrow> 'p list \<Rightarrow> bool \<Rightarrow> 'p list" where
  "search_dirs fs fp includes is_system =
     (if \<not> is_system then fs_parent fs fp # includes else includes)"

text \<open>The search loop; its \<open>else\<close> branch (no directory matched) is \<open>None\<close>.\<close>

fun find_include :: "'p fsys \<Rightarrow> string \<Rightarrow> 'p list \<Rightarrow> 'p option" where
  "find_include fs path [] = None"
| "find_include fs path (d # ds) =
     (let sub_fp = fs_join fs d path
      in if fs_exists fs sub_fp then Some sub_fp else find_include fs path ds)"

definition resolve_include :: "'p fsys \<Rightarrow> 'p \<Rightarrow> 'p list \<Rightarrow> string \<Rightarrow> bool \<Rightarrow> 'p option" where
  "resolve_include fs fp includes path is_system =
     find_include fs path (search_dirs fs fp includes is_system)"

lemma find_include_find:
  "find_include fs path ds = find (fs_exists fs) (map (\<lambda>d. fs_join fs d path) ds)"
  by (induction ds) (auto simp: Let_def)

lemma find_include_Some_exists: "find_include fs path ds = Some p \<Longrightarrow> fs_exists fs p"
  by (induction ds) (auto simp: Let_def split: if_splits)

lemma find_include_None_iff:
  "find_include fs path ds = None \<longleftrightarrow> (\<forall>d \<in> set ds. \<not> fs_exists fs (fs_join fs d path))"
  by (induction ds) (auto simp: Let_def)

lemma find_include_cong:
  "\<forall>d \<in> set ds. fs_join fs d path = fs_join fs' d path
      \<and> fs_read fs (fs_join fs d path) = fs_read fs' (fs_join fs' d path) \<Longrightarrow>
   find_include fs path ds = find_include fs' path ds"
proof (induction ds)
  case Nil
  then show ?case by simp
next
  case (Cons d ds)
  from Cons.prems have "\<forall>d \<in> set ds. fs_join fs d path = fs_join fs' d path
      \<and> fs_read fs (fs_join fs d path) = fs_read fs' (fs_join fs' d path)"
    by (simp only: list.set ball_simps) (rule conjunct2)
  then have ih: "find_include fs path ds = find_include fs' path ds" by (rule Cons.IH)
  from Cons.prems have j: "fs_join fs d path = fs_join fs' d path"
    and r: "fs_read fs (fs_join fs' d path) = fs_read fs' (fs_join fs' d path)"
    by auto
  with ih show ?case by (simp add: fs_exists_def Let_def)
qed

section \<open>Properties\<close>

text \<open>
  C18. A local include (\<open>#include "x.h"\<close>) takes the file in the includer's own
  directory when it exists there, and otherwise searches exactly as a system
  include of the same path would.
\<close>

theorem local_include_prefers_includer_dir:
  "resolve_include fs fp includes path False =
     (if fs_exists fs (fs_join fs (fs_parent fs fp) path)
      then Some (fs_join fs (fs_parent fs fp) path)
      else resolve_include fs fp includes path True)"
  by (simp add: resolve_include_def search_dirs_def)

text \<open>
  C19. A system include (\<open>#include <x.h>\<close>) never looks at the includer's
  directory: its result depends only on the candidates under the include
  directories, not on the including file nor on any other path.
\<close>

theorem system_include_ignores_includer_dir:
  assumes "\<forall>d \<in> set incs. fs_join fs d path = fs_join fs' d path
            \<and> fs_read fs (fs_join fs d path) = fs_read fs' (fs_join fs' d path)"
  shows "resolve_include fs fp incs path True = resolve_include fs' fp' incs path True"
  using find_include_cong [OF assms] by (simp add: resolve_include_def search_dirs_def)

text \<open>
  C20. The search loop returns the first searched directory under which the path
  exists: it is the library's \<open>find\<close> over the candidate paths.
\<close>

theorem find_include_is_first_existing:
  "find_include fs path ds = Some p \<longleftrightarrow>
     (\<exists>i < length ds. p = fs_join fs (ds ! i) path \<and> fs_exists fs p
        \<and> (\<forall>j < i. \<not> fs_exists fs (fs_join fs (ds ! j) path)))"
  by (auto simp: find_include_find find_Some_iff)

text \<open>
  C21. An include fails (the \<open>else\<close> branch of the search loop raises
  \<open>not found\<close>) exactly when the path exists under none of the searched
  directories.
\<close>

theorem include_not_found_iff:
  "resolve_include fs fp includes path is_system = None \<longleftrightarrow>
     (\<forall>d \<in> set (search_dirs fs fp includes is_system). \<not> fs_exists fs (fs_join fs d path))"
  by (simp add: resolve_include_def find_include_None_iff)

end
