(* ===== verification/Symbols.thy ===== *)
theory Symbols
  imports Prelude
begin

text \<open>
  The symbol table \<open>defines\<close> of \<open>process_file\<close> (src/c-preprocess.py): a Python
  dict from a name to an optional value (\<open>None\<close> for \<open>#define X\<close> with no
  value). Each call of \<open>process_file\<close> works on its own copy
  (\<open>defines = dict(parent_defines)\<close>); as a HOL map the copy is the value itself,
  so a callee's updates can only reach the caller through a returned value, and the
  file processor returns none.
\<close>

type_synonym symtab = "string \<rightharpoonup> string option"

text \<open>\<open>var in defines\<close>\<close>

definition sym_defined :: "symtab \<Rightarrow> string \<Rightarrow> bool" where
  "sym_defined m k = (m k \<noteq> None)"

text \<open>\<open>defines[k] = v\<close>\<close>

definition sym_define :: "symtab \<Rightarrow> string \<Rightarrow> string option \<Rightarrow> symtab" where
  "sym_define m k v = m(k \<mapsto> v)"

text \<open>\<open>del defines[var]\<close>, which raises \<open>KeyError\<close> on an absent name.\<close>

definition sym_undef :: "symtab \<Rightarrow> string \<Rightarrow> symtab option" where
  "sym_undef m k = (if sym_defined m k then Some (m(k := None)) else None)"

lemma sym_defined_define [pp_simps]: "sym_defined (sym_define m k v) k' = (k' = k \<or> sym_defined m k')"
  by (simp add: sym_defined_def sym_define_def)

lemma sym_undef_None_iff [pp_simps]: "sym_undef m k = None \<longleftrightarrow> \<not> sym_defined m k"
  by (simp add: sym_undef_def)

lemma sym_defined_undef:
  "sym_undef m k = Some m' \<Longrightarrow> sym_defined m' k' = (k' \<noteq> k \<and> sym_defined m k')"
  by (auto simp: sym_undef_def sym_defined_def split: if_splits)

text \<open>Defining a fresh name and removing it again gives the table back.\<close>

lemma sym_undef_define: "\<not> sym_defined m k \<Longrightarrow> sym_undef (sym_define m k v) k = Some m"
  by (auto simp: sym_undef_def sym_defined_def sym_define_def)

end
