(* ===== verification/Processor.thy ===== *)
theory Processor
  imports CondStack Directive Emitter Resolver Symbols
begin

text \<open>
  The file processor \<open>process_file\<close> of src/c-preprocess.py: its per-file state
  (the locals \<open>defines\<close>, \<open>ifs\<close>/\<open>allow_else\<close>, \<open>res\<close>/\<open>last_iline\<close>), the
  handling of one line (the \<open>if\<close>/\<open>elif\<close> chain of the loop body), and the loop
  with the recursive call for an \<open>#include\<close>. The registry
  \<open>included_filepaths\<close>, a set shared by reference by all calls of one run, is
  threaded through every call and returned with the output. A Python exception is a
  value of \<open>error\<close>; the recursion depth is bounded by a fuel argument, and running
  out of fuel is \<open>None\<close> (the model of a run that does not end).
\<close>

section \<open>Configuration, errors and state\<close>

text \<open>The arguments that stay the same through a run: the file system, \<open>includes\<close>,
  and \<open>options.passthrough_defines\<close>.\<close>

record 'p config =
  cfg_fs :: "'p fsys"
  cfg_includes :: "'p list"
  passthrough_defines :: bool

text \<open>
  \<open>Malformed\<close>: a failed sub-match (\<open>AttributeError\<close> on \<open>m.group\<close> or a failed
  \<open>assert m\<close>); \<open>UndefinedSymbol\<close>: \<open>KeyError\<close> of \<open>del\<close>;
  \<open>IncludeNotFound\<close>: the \<open>Exception(f'{path} not found!')\<close>; \<open>StackUnderflow\<close>:
  \<open>assert ifs\<close> or \<open>IndexError\<close> on an empty stack; \<open>FileNotFound\<close>: \<open>fp.open\<close>.
\<close>

datatype error = Malformed string | UndefinedSymbol string | IncludeNotFound string
  | StackUnderflow | FileNotFound

record file_state =
  st_defines :: symtab
  st_cond :: cstack
  st_out :: emitter

definition init_state :: "symtab \<Rightarrow> file_state" where
  "init_state defs = \<lparr>st_defines = defs, st_cond = empty_cstack, st_out = emitter_init\<rparr>"

text \<open>
  What one line asks the loop to do: go on with a new state and registry, fail,
  return \<open>''\<close> at once (\<open>#pragma once\<close> on a registered file), or descend into a
  resolved include.
\<close>

datatype 'p step = Continue file_state "'p set" | Fail error | Stop "'p set" | Descend 'p

section \<open>One line\<close>

text \<open>The condition of \<open>#if\<close> and \<open>#elif\<close>: \<open>if_re\<close>, then \<open>function_re\<close>.\<close>

definition eval_if :: "symtab \<Rightarrow> string \<Rightarrow> string \<Rightarrow> error + bool" where
  "eval_if defs line rest =
     (case parse_if rest of
        None \<Rightarrow> Inl (Malformed line)
      | Some cond_str \<Rightarrow>
          (case parse_function cond_str of
             None \<Rightarrow> Inl (Malformed line)
           | Some (f, arg) \<Rightarrow>
               if f = ''defined'' then Inr (sym_defined defs arg) else Inl (Malformed line)))"

text \<open>The branch \<open>elif is_valid(): ...\<close>, reached by every line that is not a
  conditional directive, when the current block is active.\<close>

fun active_step :: "'p config \<Rightarrow> 'p \<Rightarrow> nat \<Rightarrow> string \<Rightarrow> (command \<times> string) option \<Rightarrow>
    file_state \<Rightarrow> 'p set \<Rightarrow> 'p step" where
  "active_step cfg fp i line (Some (CInclude, rest)) st inc =
     (case parse_include rest of
        None \<Rightarrow> Fail (Malformed line)
      | Some g \<Rightarrow>
          (case resolve_include (cfg_fs cfg) fp (cfg_includes cfg) (include_path g)
                  (include_is_system g) of
             None \<Rightarrow> Fail (IncludeNotFound (include_path g))
           | Some sub_fp \<Rightarrow> Descend sub_fp))"
| "active_step cfg fp i line (Some (CDefine, rest)) st inc =
     (case parse_define rest of
        None \<Rightarrow> Fail (Malformed line)
      | Some (k, v) \<Rightarrow>
          Continue
            (st\<lparr>st_defines := sym_define (st_defines st) k v,
                st_out := (if passthrough_defines cfg
                           then emit (fs_str (cfg_fs cfg) fp) i line (st_out st)
                           else st_out st)\<rparr>) inc)"
| "active_step cfg fp i line (Some (CUndef, rest)) st inc =
     (case parse_ident rest of
        None \<Rightarrow> Fail (Malformed line)
      | Some var \<Rightarrow>
          (case sym_undef (st_defines st) var of
             None \<Rightarrow> Fail (UndefinedSymbol var)
           | Some defs' \<Rightarrow> Continue (st\<lparr>st_defines := defs'\<rparr>) inc))"
| "active_step cfg fp i line (Some (CPragma, rest)) st inc =
     (case parse_pragma rest of
        None \<Rightarrow> Fail (Malformed line)
      | Some arg \<Rightarrow>
          if arg \<noteq> ''once'' then Fail (Malformed line)
          else if fp \<in> inc then Stop inc
          else Continue st (insert fp inc))"
| "active_step cfg fp i line None st inc =
     (if is_valid (st_cond st)
      then Continue (st\<lparr>st_out := emit (fs_str (cfg_fs cfg) fp) i line (st_out st)\<rparr>) inc
      else Continue st inc)"
| "active_step cfg fp i line (Some _) st inc = Fail (Malformed line)"

text \<open>The loop body for one line, given its \<open>command_re\<close> match.\<close>

fun line_step :: "'p config \<Rightarrow> 'p \<Rightarrow> nat \<Rightarrow> string \<Rightarrow> (command \<times> string) option \<Rightarrow>
    file_state \<Rightarrow> 'p set \<Rightarrow> 'p step" where
  "line_step cfg fp i line (Some (CEndif, rest)) st inc =
     (case endif_op (st_cond st) of
        None \<Rightarrow> Fail StackUnderflow
      | Some cs \<Rightarrow> Continue (st\<lparr>st_cond := cs\<rparr>) inc)"
| "line_step cfg fp i line (Some (CElse, rest)) st inc =
     (case else_op (st_cond st) of
        None \<Rightarrow> Fail StackUnderflow
      | Some cs \<Rightarrow> Continue (st\<lparr>st_cond := cs\<rparr>) inc)"
| "line_step cfg fp i line (Some (CIfdef, rest)) st inc =
     (case parse_ident rest of
        None \<Rightarrow> Fail (Malformed line)
      | Some var \<Rightarrow>
          Continue (st\<lparr>st_cond := add_if (sym_defined (st_defines st) var) (st_cond st)\<rparr>) inc)"
| "line_step cfg fp i line (Some (CIfndef, rest)) st inc =
     (case parse_ident rest of
        None \<Rightarrow> Fail (Malformed line)
      | Some var \<Rightarrow>
          Continue (st\<lparr>st_cond := add_if (\<not> sym_defined (st_defines st) var) (st_cond st)\<rparr>) inc)"
| "line_step cfg fp i line (Some (CIf, rest)) st inc =
     (case eval_if (st_defines st) line rest of
        Inl e \<Rightarrow> Fail e
      | Inr cond \<Rightarrow> Continue (st\<lparr>st_cond := add_if cond (st_cond st)\<rparr>) inc)"
| "line_step cfg fp i line (Some (CElif, rest)) st inc =
     (case elif_allowed (st_cond st) of
        None \<Rightarrow> Fail StackUnderflow
      | Some False \<Rightarrow> Continue st inc
      | Some True \<Rightarrow>
          (case eval_if (st_defines st) line rest of
             Inl e \<Rightarrow> Fail e
           | Inr cond \<Rightarrow>
               if cond then
                 (case take_branch (st_cond st) of
                    None \<Rightarrow> Fail StackUnderflow
                  | Some cs \<Rightarrow> Continue (st\<lparr>st_cond := cs\<rparr>) inc)
               else Continue st inc))"
| "line_step cfg fp i line cmd st inc =
     (if is_valid (st_cond st) then active_step cfg fp i line cmd st inc else Continue st inc)"

section \<open>The file and its loop\<close>

text \<open>
  \<open>process_file(options, fp, includes, parent_defines, included_filepaths)\<close> with
  \<open>n\<close> levels of include recursion left, and the \<open>for iline, line in
  enumerate(src)\<close> loop from line \<open>i\<close> on. The result is \<open>None\<close> when the fuel
  runs out, \<open>Inl\<close> an error, or \<open>Inr\<close> the returned text with the registry as
  the call leaves it.
\<close>

type_synonym 'p result = "(error + string \<times> 'p set) option"

fun process_file :: "nat \<Rightarrow> 'p config \<Rightarrow> 'p \<Rightarrow> symtab \<Rightarrow> 'p set \<Rightarrow> 'p result"
  and process_lines :: "nat \<Rightarrow> 'p config \<Rightarrow> 'p \<Rightarrow> nat \<Rightarrow> string list \<Rightarrow> file_state \<Rightarrow>
    'p set \<Rightarrow> 'p result" where
  "process_file 0 cfg fp defs inc = None"
| "process_file (Suc n) cfg fp defs inc =
     (case fs_read (cfg_fs cfg) fp of
        None \<Rightarrow> Some (Inl FileNotFound)
      | Some text \<Rightarrow> process_lines n cfg fp 0 (readlines text) (init_state defs) inc)"
| "process_lines n cfg fp i [] st inc = Some (Inr (emitted (st_out st), inc))"
| "process_lines n cfg fp i (l # ls) st inc =
     (case line_step cfg fp i l (match_command l) st inc of
        Fail e \<Rightarrow> Some (Inl e)
      | Stop inc' \<Rightarrow> Some (Inr ([], inc'))
      | Continue st' inc' \<Rightarrow> process_lines n cfg fp (Suc i) ls st' inc'
      | Descend sub_fp \<Rightarrow>
          (case process_file n cfg sub_fp (st_defines st) inc of
             None \<Rightarrow> None
           | Some (Inl e) \<Rightarrow> Some (Inl e)
           | Some (Inr (sub_src, inc')) \<Rightarrow>
               process_lines n cfg fp (Suc i) ls
                 (st\<lparr>st_out := splice_include (fs_str (cfg_fs cfg) fp) i sub_src (st_out st)\<rparr>) inc'))"

text \<open>The top-level call: \<open>included_filepaths=None\<close> becomes \<open>set()\<close>.\<close>

definition process :: "nat \<Rightarrow> 'p config \<Rightarrow> 'p \<Rightarrow> symtab \<Rightarrow> (error + string) option" where
  "process n cfg fp defs = map_option (map_sum id fst) (process_file n cfg fp defs {})"

section \<open>Shared facts about one line\<close>

lemma active_step_registry:
  "active_step cfg fp i l cmd st inc = Continue st' inc' \<Longrightarrow> inc \<subseteq> inc'"
  "active_step cfg fp i l cmd st inc = Stop inc' \<Longrightarrow> inc' = inc"
  "active_step cfg fp i l cmd st inc = Continue st' inc' \<Longrightarrow> inc' \<subseteq> insert fp inc"
  by (induction cfg fp i l cmd st inc rule: active_step.induct)
    (auto split: option.splits if_splits)

lemma line_step_registry:
  "line_step cfg fp i l cmd st inc = Continue st' inc' \<Longrightarrow> inc \<subseteq> inc'"
  "line_step cfg fp i l cmd st inc = Stop inc' \<Longrightarrow> inc' = inc"
  "line_step cfg fp i l cmd st inc = Continue st' inc' \<Longrightarrow> inc' \<subseteq> insert fp inc"
  by (induction cfg fp i l cmd st inc rule: line_step.induct)
    (auto split: option.splits if_splits sum.splits bool.splits dest: active_step_registry)

text \<open>The file an \<open>#include\<close> line names, resolved, whatever the state it is read in.\<close>

definition line_include :: "'p config \<Rightarrow> 'p \<Rightarrow> string \<Rightarrow> 'p option" where
  "line_include cfg fp l =
     (case match_command l of
        Some (CInclude, rest) \<Rightarrow>
          (case parse_include rest of
             None \<Rightarrow> None
           | Some g \<Rightarrow>
               resolve_include (cfg_fs cfg) fp (cfg_includes cfg) (include_path g) (include_is_system g))
      | _ \<Rightarrow> None)"

lemma line_step_Descend:
  assumes "line_step cfg fp i l (match_command l) st inc = Descend sub"
  shows "line_include cfg fp l = Some sub"
proof (cases "match_command l")
  case None
  with assms show ?thesis by (auto split: if_splits)
next
  case (Some p)
  obtain c rest where p: "p = (c, rest)" by fastforce
  with Some assms show ?thesis
    by (cases c) (auto simp: line_include_def split: option.splits if_splits sum.splits bool.splits)
qed

section \<open>The registry only grows; more fuel changes nothing\<close>

lemma registry_mono:
  "process_file n cfg fp defs inc = Some (Inr (s, inc')) \<Longrightarrow> inc \<subseteq> inc'"
  "process_lines n cfg fp i ls st inc = Some (Inr (s, inc')) \<Longrightarrow> inc \<subseteq> inc'"
proof (induction n cfg fp defs inc and n cfg fp i ls st inc arbitrary: s inc' and s inc'
    rule: process_file_process_lines.induct)
  case (4 n cfg fp i l ls st inc)
  show ?case
  proof (cases "line_step cfg fp i l (match_command l) st inc")
    case (Continue st1 inc1)
    from "4.prems" Continue have r: "process_lines n cfg fp (Suc i) ls st1 inc1 = Some (Inr (s, inc'))"
      by simp
    have "inc1 \<subseteq> inc'" by (rule "4.IH"(1) [OF Continue r])
    moreover from Continue have "inc \<subseteq> inc1" by (rule line_step_registry)
    ultimately show ?thesis by blast
  next
    case (Descend sub)
    with "4.prems" obtain s1 inc1
      where f: "process_file n cfg sub (st_defines st) inc = Some (Inr (s1, inc1))"
        and r: "process_lines n cfg fp (Suc i) ls
          (st\<lparr>st_out := splice_include (fs_str (cfg_fs cfg) fp) i s1 (st_out st)\<rparr>) inc1
          = Some (Inr (s, inc'))"
      by (auto split: option.splits sum.splits)
    have "inc \<subseteq> inc1" using "4.IH"(2) [OF Descend f] .
    moreover have "inc1 \<subseteq> inc'" using "4.IH"(3) [OF Descend f refl refl r] .
    ultimately show ?thesis by blast
  next
    case (Stop inc1)
    with "4.prems" show ?thesis by (auto dest: line_step_registry)
  next
    case (Fail e)
    with "4.prems" show ?thesis by simp
  qed
qed (auto split: option.splits)

text \<open>Only files that exist are ever added to the registry.\<close>

lemma registry_sound:
  "process_file n cfg fp defs inc = Some (Inr (s, inc')) \<Longrightarrow>
   inc' - inc \<subseteq> Collect (fs_exists (cfg_fs cfg))"
  "fs_exists (cfg_fs cfg) fp \<Longrightarrow> process_lines n cfg fp i ls st inc = Some (Inr (s, inc')) \<Longrightarrow>
   inc' - inc \<subseteq> Collect (fs_exists (cfg_fs cfg))"
proof (induction n cfg fp defs inc and n cfg fp i ls st inc arbitrary: s inc' and s inc'
    rule: process_file_process_lines.induct)
  case (2 n cfg fp defs inc)
  then show ?case by (auto simp: fs_exists_def split: option.splits)
next
  case (4 n cfg fp i l ls st inc)
  show ?case
  proof (cases "line_step cfg fp i l (match_command l) st inc")
    case (Continue st1 inc1)
    from "4.prems"(2) Continue
    have r: "process_lines n cfg fp (Suc i) ls st1 inc1 = Some (Inr (s, inc'))" by simp
    have "inc' - inc1 \<subseteq> Collect (fs_exists (cfg_fs cfg))"
      by (rule "4.IH"(1) [OF Continue "4.prems"(1) r])
    moreover from Continue have "inc1 \<subseteq> insert fp inc" by (rule line_step_registry(3))
    ultimately show ?thesis using "4.prems"(1) by blast
  next
    case (Descend sub)
    with "4.prems"(2) obtain s1 inc1
      where f: "process_file n cfg sub (st_defines st) inc = Some (Inr (s1, inc1))"
        and r: "process_lines n cfg fp (Suc i) ls
          (st\<lparr>st_out := splice_include (fs_str (cfg_fs cfg) fp) i s1 (st_out st)\<rparr>) inc1
          = Some (Inr (s, inc'))"
      by (auto split: option.splits sum.splits)
    have "inc1 - inc \<subseteq> Collect (fs_exists (cfg_fs cfg))" using "4.IH"(2) [OF Descend f] .
    moreover have "inc' - inc1 \<subseteq> Collect (fs_exists (cfg_fs cfg))"
      using "4.IH"(3) [OF Descend f refl refl "4.prems"(1) r] .
    ultimately show ?thesis by blast
  next
    case (Stop inc1)
    with "4.prems" show ?thesis by (auto dest: line_step_registry)
  next
    case (Fail e)
    with "4.prems" show ?thesis by simp
  qed
qed (auto split: option.splits)

lemma fuel_mono:
  "process_file n cfg fp defs inc = Some r \<Longrightarrow> process_file (Suc n) cfg fp defs inc = Some r"
  "process_lines n cfg fp i ls st inc = Some r \<Longrightarrow> process_lines (Suc n) cfg fp i ls st inc = Some r"
proof (induction n cfg fp defs inc and n cfg fp i ls st inc arbitrary: r and r
    rule: process_file_process_lines.induct)
  case (4 n cfg fp i l ls st inc)
  show ?case
  proof (cases "line_step cfg fp i l (match_command l) st inc")
    case (Continue st1 inc1)
    with "4.prems" "4.IH"(1) [OF Continue] show ?thesis by simp
  next
    case (Descend sub)
    show ?thesis
    proof (cases "process_file n cfg sub (st_defines st) inc")
      case None
      with Descend "4.prems" show ?thesis by simp
    next
      case (Some r1)
      have f: "process_file (Suc n) cfg sub (st_defines st) inc = Some r1"
        by (rule "4.IH"(2) [OF Descend Some])
      show ?thesis
      proof (cases r1)
        case (Inl e)
        with Some f Descend "4.prems" show ?thesis by auto
      next
        case (Inr b)
        obtain s1 inc1 where b: "b = (s1, inc1)" by fastforce
        with Some f Descend Inr "4.prems" "4.IH"(3) [OF Descend Some Inr b [symmetric]]
        show ?thesis by simp
      qed
    qed
  qed (use "4.prems" in simp_all)
qed (auto split: option.splits)

section \<open>When the run returns\<close>

text \<open>
  The loop returns as soon as every include it may descend into returns, from any
  registry that contains a given one.
\<close>

lemma process_lines_total:
  "(\<forall>l \<in> set ls. \<forall>sub. line_include cfg fp l = Some sub \<longrightarrow>
      (\<forall>R d. Rinit \<subseteq> R \<longrightarrow> process_file n cfg sub d R \<noteq> None)) \<Longrightarrow>
   Rinit \<subseteq> inc \<Longrightarrow> process_lines n cfg fp i ls st inc \<noteq> None"
proof (induction ls arbitrary: i st inc)
  case Nil
  then show ?case by simp
next
  case (Cons l ls)
  show ?case
  proof (cases "line_step cfg fp i l (match_command l) st inc")
    case (Continue st1 inc1)
    then have "inc \<subseteq> inc1" by (rule line_step_registry)
    with Cons.prems have "process_lines n cfg fp (Suc i) ls st1 inc1 \<noteq> None"
      by (intro Cons.IH) auto
    with Continue show ?thesis by simp
  next
    case (Descend sub)
    then have "line_include cfg fp l = Some sub" by (rule line_step_Descend)
    with Cons.prems obtain r1 where r1: "process_file n cfg sub (st_defines st) inc = Some r1"
      by fastforce
    show ?thesis
    proof (cases r1)
      case (Inl e)
      with Descend r1 show ?thesis by simp
    next
      case (Inr b)
      obtain s1 inc1 where b: "b = (s1, inc1)" by fastforce
      with r1 Inr have "inc \<subseteq> inc1" by (auto dest: registry_mono(1))
      with Cons.prems have "process_lines n cfg fp (Suc i) ls
          (st\<lparr>st_out := splice_include (fs_str (cfg_fs cfg) fp) i s1 (st_out st)\<rparr>) inc1 \<noteq> None"
        by (intro Cons.IH) auto
      with Descend r1 Inr b show ?thesis by simp
    qed
  qed simp_all
qed

text \<open>An edge of the include graph: a line of \<open>p\<close> names \<open>q\<close> as an include.\<close>

definition include_edge :: "'p config \<Rightarrow> 'p \<Rightarrow> 'p \<Rightarrow> bool" where
  "include_edge cfg p q =
     (case fs_read (cfg_fs cfg) p of
        None \<Rightarrow> False
      | Some text \<Rightarrow> (\<exists>l \<in> set (readlines text). line_include cfg p l = Some q))"

text \<open>Files whose first line is \<open>#pragma once\<close>.\<close>

definition pragma_first :: "string \<Rightarrow> bool" where
  "pragma_first text =
     (case readlines text of
        [] \<Rightarrow> False
      | l # _ \<Rightarrow>
          (case match_command l of
             Some (CPragma, rest) \<Rightarrow> parse_pragma rest = Some ''once''
           | _ \<Rightarrow> False))"

lemma pragma_first_step:
  assumes "fs_read (cfg_fs cfg) fp = Some text" and "pragma_first text"
  shows "process_file (Suc n) cfg fp defs inc =
    (if fp \<in> inc then Some (Inr ([], inc))
     else process_lines n cfg fp 1 (tl (readlines text)) (init_state defs) (insert fp inc))"
proof -
  obtain l0 ls where lines: "readlines text = l0 # ls"
    using assms(2) by (cases "readlines text") (auto simp: pragma_first_def)
  obtain c rest where m: "match_command l0 = Some (c, rest)"
    using assms(2) lines by (cases "match_command l0") (auto simp: pragma_first_def)
  have c: "c = CPragma" and pp: "parse_pragma rest = Some ''once''"
    using assms(2) lines m by (cases c; simp add: pragma_first_def)+
  from assms(1) lines m c pp show ?thesis
    by (simp add: init_state_def empty_cstack_def is_valid_def)
qed

lemma plain_lines:
  "\<forall>l \<in> set ls. match_command l = None \<Longrightarrow> is_valid (st_cond st) \<Longrightarrow>
   process_lines n cfg fp i ls st inc =
     Some (Inr (emitted (emit_from (fs_str (cfg_fs cfg) fp) i ls (st_out st)), inc))"
  by (induction ls arbitrary: i st) auto

text \<open>Lines of plain text in an active block only emit; the loop then goes on
  after them with the same symbols and conditional stack.\<close>

lemma plain_prefix:
  "\<forall>l \<in> set pre. match_command l = None \<Longrightarrow> is_valid (st_cond st) \<Longrightarrow>
   process_lines n cfg fp i (pre @ ls) st inc =
   process_lines n cfg fp (i + length pre) ls
     (st\<lparr>st_out := emit_from (fs_str (cfg_fs cfg) fp) i pre (st_out st)\<rparr>) inc"
  by (induction pre arbitrary: i st) auto

lemma init_valid: "is_valid (st_cond (init_state defs))"
  by (simp add: init_state_def empty_cstack_def is_valid_def)

text \<open>An include line resolved to \<open>sub\<close> descends into \<open>sub\<close> in an active block.\<close>

lemma line_include_Descend:
  assumes "line_include cfg fp l = Some sub" and "is_valid (st_cond st)"
  shows "line_step cfg fp i l (match_command l) st inc = Descend sub"
proof -
  obtain rest g where m: "match_command l = Some (CInclude, rest)" and g: "parse_include rest = Some g"
    and r: "resolve_include (cfg_fs cfg) fp (cfg_includes cfg) (include_path g) (include_is_system g) = Some sub"
    using assms(1) by (auto simp: line_include_def split: option.splits prod.splits command.splits)
  with assms(2) show ?thesis by simp
qed

section \<open>Properties\<close>

text \<open>
  C2. Termination on an acyclic include graph: if some ranking of the files
  decreases along every include edge (a line of one file naming another, whatever
  the conditionals around it), a run with more fuel than the rank of its file
  returns, with an output or an error.
\<close>

theorem terminates_on_ranked_includes:
  assumes ranked: "\<forall>p q. include_edge cfg p q \<longrightarrow> rank q < rank p"
    and fuel: "rank fp < n"
  shows "process_file n cfg fp defs inc \<noteq> None"
  using fuel
proof (induction n arbitrary: fp defs inc)
  case 0
  then show ?case by simp
next
  case (Suc n)
  show ?case
  proof (cases "fs_read (cfg_fs cfg) fp")
    case None
    then show ?thesis by simp
  next
    case (Some src)
    have "process_lines n cfg fp 0 (readlines src) (init_state defs) inc \<noteq> None"
    proof (rule process_lines_total [where Rinit = "{}"])
      show "\<forall>l \<in> set (readlines src). \<forall>sub. line_include cfg fp l = Some sub \<longrightarrow>
          (\<forall>R d. {} \<subseteq> R \<longrightarrow> process_file n cfg sub d R \<noteq> None)"
      proof (intro ballI allI impI)
        fix l sub R d
        assume "l \<in> set (readlines src)" and "line_include cfg fp l = Some sub"
        with Some have "include_edge cfg fp sub" by (auto simp: include_edge_def)
        with ranked Suc.prems have "rank sub < n" by fastforce
        then show "process_file n cfg sub d R \<noteq> None" by (rule Suc.IH)
      qed
    qed simp
    with Some show ?thesis by simp
  qed
qed

text \<open>
  C3. Termination under \<open>#pragma once\<close>: if the file system holds finitely many
  files and each of them starts with \<open>#pragma once\<close>, a run returns once its fuel
  exceeds the number of files not yet in the registry, even when the files include
  each other in a cycle.
\<close>

theorem terminates_with_pragma_once:
  assumes fin: "finite D"
    and guarded: "\<forall>p text. fs_read (cfg_fs cfg) p = Some text \<longrightarrow> p \<in> D \<and> pragma_first text"
    and fuel: "card (D - inc) < n"
  shows "process_file n cfg fp defs inc \<noteq> None"
  using fuel
proof (induction n arbitrary: fp defs inc)
  case 0
  then show ?case by simp
next
  case (Suc n)
  show ?case
  proof (cases "fs_read (cfg_fs cfg) fp")
    case None
    then show ?thesis by simp
  next
    case (Some src)
    with guarded have fpD: "fp \<in> D" and pf: "pragma_first src" by auto
    show ?thesis
    proof (cases "fp \<in> inc")
      case True
      with Some pf show ?thesis by (simp add: pragma_first_step del: process_file.simps)
    next
      case False
      with fpD have new: "fp \<in> D - inc" by blast
      have "D - insert fp inc = (D - inc) - {fp}" by blast
      with new fin have "card (D - insert fp inc) = card (D - inc) - 1"
        by (simp add: card_Diff_singleton)
      moreover from new fin have "0 < card (D - inc)" by (auto simp: card_gt_0_iff)
      ultimately have card: "card (D - insert fp inc) < n" using Suc.prems by linarith
      have "process_lines n cfg fp 1 (tl (readlines src)) (init_state defs) (insert fp inc) \<noteq> None"
      proof (rule process_lines_total [where Rinit = "insert fp inc"])
        show "\<forall>l \<in> set (tl (readlines src)). \<forall>sub. line_include cfg fp l = Some sub \<longrightarrow>
            (\<forall>R d. insert fp inc \<subseteq> R \<longrightarrow> process_file n cfg sub d R \<noteq> None)"
        proof (intro ballI allI impI)
          fix l sub R d
          assume "insert fp inc \<subseteq> R"
          with fin have "card (D - R) \<le> card (D - insert fp inc)" by (intro card_mono) auto
          with card have "card (D - R) < n" by linarith
          then show "process_file n cfg sub d R \<noteq> None" by (rule Suc.IH)
        qed
      qed simp
      with Some pf False show ?thesis by (simp add: pragma_first_step del: process_file.simps)
    qed
  qed
qed

text \<open>
  C4. \<open>#pragma once\<close> suppresses a repeat: once a file that starts with
  \<open>#pragma once\<close> has been processed, processing it again later in the same run
  (with any registry the run has grown since, at any include depth, with any
  symbols) returns the empty text at once and leaves the registry as it is.
\<close>

theorem pragma_once_second_time_empty:
  assumes rd: "fs_read (cfg_fs cfg) fp = Some text" and pf: "pragma_first text"
    and first: "process_file n cfg fp defs inc = Some (Inr (s, inc1))"
    and grown: "inc1 \<subseteq> inc2"
  shows "process_file (Suc m) cfg fp defs' inc2 = Some (Inr ([], inc2))"
proof -
  obtain n' where n: "n = Suc n'" using first by (cases n) auto
  have "fp \<in> inc1"
  proof (cases "fp \<in> inc")
    case True
    with rd pf first n show ?thesis by (simp add: pragma_first_step del: process_file.simps)
  next
    case False
    with rd pf first n have "process_lines n' cfg fp 1 (tl (readlines text)) (init_state defs)
        (insert fp inc) = Some (Inr (s, inc1))"
      by (simp add: pragma_first_step del: process_file.simps)
    then have "insert fp inc \<subseteq> inc1" by (rule registry_mono(2))
    then show ?thesis by blast
  qed
  with grown have "fp \<in> inc2" by blast
  with rd pf show ?thesis by (simp add: pragma_first_step del: process_file.simps)
qed

text \<open>
  C5. A file with no directive line comes out with its text unchanged, but after a
  marker for line 0: the first \<open>emit\<close> compares its index 0 with
  \<open>last_iline + 1 = 1\<close>, so the marker \<open>#line 0\<close> is always written before line 0.
\<close>

theorem plain_file_gets_leading_marker:
  assumes rd: "fs_read (cfg_fs cfg) fp = Some text" and nonempty: "text \<noteq> []"
    and plain: "\<forall>l \<in> set (readlines text). match_command l = None"
  shows "process_file (Suc n) cfg fp defs inc =
    Some (Inr (line_str 0 (fs_str (cfg_fs cfg) fp) @ text, inc))"
proof -
  obtain l0 ls where lines: "readlines text = l0 # ls"
    using nonempty by (cases "readlines text") (auto simp: readlines_def readlines_acc_empty_iff)
  let ?fps = "fs_str (cfg_fs cfg) fp"
  let ?em = "emit ?fps 0 l0 emitter_init"
  have "emitted (emit_from ?fps 1 ls ?em) = emitted ?em @ concat ls"
    by (rule emit_from_contiguous) (simp add: last_iline_emit)
  moreover have "last_iline emitter_init = 0" by (simp add: emitter_init_def)
  ultimately have out: "emitted (emit_from ?fps 0 (l0 # ls) emitter_init) = line_str 0 ?fps @ text"
    using concat_readlines_acc [of "[]" "text"] lines
    by (simp add: emitted_emit emitted_init readlines_def)
  have "process_lines n cfg fp 0 (l0 # ls) (init_state defs) inc =
      Some (Inr (emitted (emit_from ?fps 0 (l0 # ls) emitter_init), inc))"
    using plain lines plain_lines [of "l0 # ls" "init_state defs"]
    by (simp add: init_state_def empty_cstack_def is_valid_def)
  with rd lines out show ?thesis by simp
qed

text \<open>
  C8. In an inactive block every line that is not a conditional directive is skipped
  without effect: plain text is not emitted, and \<open>#include\<close>, \<open>#define\<close>,
  \<open>#undef\<close> and \<open>#pragma\<close> are neither parsed nor executed, so even a malformed
  one or an \<open>#undef\<close> of an absent name raises nothing.
\<close>

theorem inactive_lines_ignored:
  assumes inactive: "\<not> is_valid (st_cond st)"
    and cmd: "map_option fst (match_command l) \<in> {None, Some CInclude, Some CDefine, Some CUndef, Some CPragma}"
  shows "process_lines n cfg fp i (l # ls) st inc = process_lines n cfg fp (Suc i) ls st inc"
proof (cases "match_command l")
  case None
  with inactive show ?thesis by simp
next
  case (Some p)
  then obtain c r where m: "match_command l = Some (c, r)" by (cases p) auto
  with cmd have "c \<in> {CInclude, CDefine, CUndef, CPragma}" by auto
  with m inactive show ?thesis by auto
qed

text \<open>
  C9. An \<open>#elif\<close> whose block has already taken a branch is skipped before its
  condition is read: the line changes nothing and raises nothing, whatever follows
  the keyword.
\<close>

theorem elif_after_taken_not_evaluated:
  assumes taken: "elif_allowed (st_cond st) = Some False"
    and cmd: "match_command l = Some (CElif, rest)"
  shows "process_lines n cfg fp i (l # ls) st inc = process_lines n cfg fp (Suc i) ls st inc"
  using taken cmd by simp

text \<open>
  C10. \<open>#undef\<close> of a name that is not defined, reached in a file after lines of
  plain text, stops the whole call with the error \<open>UndefinedSymbol\<close> (the
  \<open>KeyError\<close> of \<open>del\<close>): nothing of the file is returned.
\<close>

theorem undef_absent_fails:
  assumes "fs_read (cfg_fs cfg) fp = Some text" and "readlines text = pre @ l # ls"
    and "\<forall>p \<in> set pre. match_command p = None"
    and "match_command l = Some (CUndef, rest)" and "parse_ident rest = Some var"
    and "\<not> sym_defined defs var"
  shows "process_file (Suc n) cfg fp defs inc = Some (Inl (UndefinedSymbol var))"
proof -
  have "process_lines n cfg fp 0 (pre @ l # ls) (init_state defs) inc =
      process_lines n cfg fp (length pre) (l # ls)
        ((init_state defs)\<lparr>st_out := emit_from (fs_str (cfg_fs cfg) fp) 0 pre emitter_init\<rparr>) inc"
    using plain_prefix [OF assms(3) init_valid, of n cfg fp 0 "l # ls"] by (simp add: init_state_def)
  with assms show ?thesis by (simp add: init_state_def sym_undef_def empty_cstack_def is_valid_def)
qed

text \<open>
  C11. An \<open>#include\<close> reached in a file after lines of plain text, whose path
  exists under none of the searched directories, stops the whole call with
  \<open>IncludeNotFound\<close> and the path.
\<close>

theorem include_not_found_fails:
  assumes "fs_read (cfg_fs cfg) fp = Some text" and "readlines text = pre @ l # ls"
    and "\<forall>p \<in> set pre. match_command p = None"
    and "match_command l = Some (CInclude, rest)" and "parse_include rest = Some g"
    and "resolve_include (cfg_fs cfg) fp (cfg_includes cfg) (include_path g) (include_is_system g) = None"
  shows "process_file (Suc n) cfg fp defs inc = Some (Inl (IncludeNotFound (include_path g)))"
proof -
  have "process_lines n cfg fp 0 (pre @ l # ls) (init_state defs) inc =
      process_lines n cfg fp (length pre) (l # ls)
        ((init_state defs)\<lparr>st_out := emit_from (fs_str (cfg_fs cfg) fp) 0 pre emitter_init\<rparr>) inc"
    using plain_prefix [OF assms(3) init_valid, of n cfg fp 0 "l # ls"] by (simp add: init_state_def)
  with assms show ?thesis by (simp add: init_state_def empty_cstack_def is_valid_def)
qed

text \<open>
  C37. An error inside an included file aborts the includer with the same error:
  when a file reaches, after lines of plain text, an include of \<open>sub\<close> and
  processing \<open>sub\<close> fails, the whole call fails with that error and returns
  nothing of the including file.
\<close>

theorem include_error_propagates:
  assumes "fs_read (cfg_fs cfg) fp = Some text" and "readlines text = pre @ l # ls"
    and "\<forall>p \<in> set pre. match_command p = None"
    and "line_include cfg fp l = Some sub"
    and "process_file n cfg sub defs inc = Some (Inl e)"
  shows "process_file (Suc n) cfg fp defs inc = Some (Inl e)"
proof -
  let ?st = "(init_state defs)\<lparr>st_out := emit_from (fs_str (cfg_fs cfg) fp) 0 pre emitter_init\<rparr>"
  have "process_lines n cfg fp 0 (pre @ l # ls) (init_state defs) inc =
      process_lines n cfg fp (length pre) (l # ls) ?st inc"
    using plain_prefix [OF assms(3) init_valid, of n cfg fp 0 "l # ls"] by (simp add: init_state_def)
  moreover have "line_step cfg fp (length pre) l (match_command l) ?st inc = Descend sub"
    using assms(4) init_valid [of defs] by (intro line_include_Descend) simp_all
  ultimately show ?thesis using assms(1,2,5) by (simp add: init_state_def)
qed

text \<open>
  C16. The condition of \<open>#if\<close> and \<open>#elif\<close> is decided by its first
  \<open>defined(NAME)\<close> alone: whatever follows the closing parenthesis in the same
  token (\<open>&&defined(B)\<close>, \<open>||1\<close>, ...) is ignored.
\<close>

theorem if_condition_reads_first_defined:
  assumes "a \<noteq> []" and "\<forall>c \<in> set a. is_word c"
  shows "eval_if defs line (CHR '' '' # ''defined('' @ a @ CHR '')'' # r) = Inr (sym_defined defs a)"
proof -
  have sp: "is_space (CHR '' '')" and nd: "\<not> is_space (CHR ''d'')" and np: "\<not> is_space (CHR '')'')"
    and nw: "\<not> is_word (CHR '')'')"
    by (simp_all add: is_space_def is_word_def)
  have w8: "\<forall>c \<in> set ''defined(''. \<not> is_space c" by (simp add: is_space_def)
  let ?s = "''defined('' @ a @ CHR '')'' # r"
  let ?t = "takeWhile (\<lambda>c. \<not> is_space c) r"
  have ws: "skip_ws1 (CHR '' '' # ?s) = Some ?s"
    using sp nd by (simp add: skip_ws1_def)
  have tk: "takeWhile (\<lambda>c. \<not> is_space c) ?s = ''defined('' @ a @ CHR '')'' # ?t"
    using w8 nonspace_words [OF assms(2)] np by (simp add: takeWhile_append2)
  have id: "match_ident (a @ CHR '')'' # ?t) = Some (a, CHR '')'' # ?t)"
    using words_prefix [OF assms(2) nw] assms(1) by (simp add: match_ident_def)
  show ?thesis
    using ws tk id by (simp add: eval_if_def parse_if_def match_nonspace_def parse_function_def)
qed

text \<open>
  C17. A bare identifier as the condition of \<open>#if\<close> or \<open>#elif\<close> (\<open>#if X\<close>)
  is not evaluated but stops the run with \<open>Malformed\<close>: only \<open>defined(...)\<close>
  is accepted.
\<close>

theorem if_bare_identifier_fails:
  assumes "a \<noteq> []" and "\<forall>c \<in> set a. is_word c" and "r = [] \<or> is_space (hd r)"
  shows "eval_if defs line (CHR '' '' # a @ r) = Inl (Malformed line)"
proof -
  have sp: "is_space (CHR '' '')" by (simp add: is_space_def)
  obtain x a' where a: "a = x # a'" using assms(1) by (cases a) auto
  with assms(2) have x: "\<not> is_space x" by (auto dest: word_not_space)
  have ws: "skip_ws1 (CHR '' '' # a @ r) = Some (a @ r)"
    using sp x a by (simp add: skip_ws1_def)
  have tk: "takeWhile (\<lambda>c. \<not> is_space c) (a @ r) = a"
    using nonspace_words [OF assms(2), of r] assms(3) by (cases r) auto
  have "take 8 a \<noteq> ''defined(''"
  proof
    assume "take 8 a = ''defined(''"
    then have "CHR ''('' \<in> set a" by (metis in_set_takeD list.set_intros(1,2))
    with assms(2) show False by (auto simp: is_word_def)
  qed
  then have "parse_function a = None" by (simp add: parse_function_def)
  with ws tk assms(1) show ?thesis
    by (simp add: eval_if_def parse_if_def match_nonspace_def)
qed

end
