(* ===== verification/Driver.thy ===== *)
theory Driver
  imports Processor
begin

text \<open>
  The command-line driver \<open>main\<close> of src/c-preprocess.py: the option loop over
  \<open>sys.argv\<close>, the three file paths, the lookup of the compile database, the
  extraction of the \<open>-I\<close> and \<open>-D\<close> flags from the entry's command, its local
  \<open>parse_define\<close>, and the call of \<open>process_file\<close>. The host side the code only
  calls is a parameter record: \<open>Path(s)\<close>, \<open>.absolute()\<close>, the file system, and
  the entries \<open>(file, command)\<close> that \<open>json.load\<close> reads from a path. Printing is
  the returned text (\<open>None\<close> under \<open>-q\<close>).
\<close>

section \<open>Options\<close>

record options =
  opt_passthrough_defines :: bool
  opt_verbose :: bool
  opt_quiet :: bool

definition options_init :: options where
  "options_init = \<lparr>opt_passthrough_defines = False, opt_verbose = False, opt_quiet = False\<rparr>"

datatype opt_attr = AVerbose | APassthroughDefines | AQuiet

definition options_params :: "(string \<times> opt_attr) list" where
  "options_params = [(''--verbose'', AVerbose), (''--passthrough-defines'', APassthroughDefines),
                     (''-q'', AQuiet)]"

text \<open>\<open>setattr(options, arg_attr, True)\<close>\<close>

fun set_attr :: "opt_attr \<Rightarrow> options \<Rightarrow> options" where
  "set_attr AVerbose opts = opts\<lparr>opt_verbose := True\<rparr>"
| "set_attr APassthroughDefines opts = opts\<lparr>opt_passthrough_defines := True\<rparr>"
| "set_attr AQuiet opts = opts\<lparr>opt_quiet := True\<rparr>"

text \<open>
  \<open>while args: arg = args.pop(0); for ...: if arg == arg_str: ...; break;
  else: args.insert(0, arg); break\<close>: the first entry of \<open>options_params\<close> whose
  text equals the argument wins (\<open>map_of\<close>); an argument that is no option is put
  back and ends the loop.
\<close>

fun parse_options :: "options \<Rightarrow> string list \<Rightarrow> options \<times> string list" where
  "parse_options opts [] = (opts, [])"
| "parse_options opts (arg # args) =
     (case map_of options_params arg of
        Some a \<Rightarrow> parse_options (set_attr a opts) args
      | None \<Rightarrow> (opts, arg # args))"

section \<open>String operations of the driver\<close>

text \<open>\<open>str.split()\<close> with no argument: the maximal runs of non-space characters.\<close>

fun split_acc :: "string \<Rightarrow> string \<Rightarrow> string list" where
  "split_acc cur [] = (if cur = [] then [] else [cur])"
| "split_acc cur (c # s) =
     (if is_space c then (if cur = [] then split_acc [] s else cur # split_acc [] s)
      else split_acc (cur @ [c]) s)"

definition py_split :: "string \<Rightarrow> string list" where
  "py_split s = split_acc [] s"

text \<open>\<open>str.split(sep)\<close> with a one-character separator: the pieces between
  separators, empty ones included.\<close>

fun split_on :: "char \<Rightarrow> string \<Rightarrow> string list" where
  "split_on sep [] = [[]]"
| "split_on sep (c # s) =
     (let r = split_on sep s in if c = sep then [] # r else (c # hd r) # tl r)"

text \<open>\<open>str.startswith(p)\<close> and \<open>str.lstrip(chars)\<close>, which strips every leading
  character that occurs in \<open>chars\<close>, not the prefix \<open>chars\<close>.\<close>

definition startswith :: "string \<Rightarrow> string \<Rightarrow> bool" where
  "startswith s p = (take (length p) s = p)"

definition py_lstrip :: "string \<Rightarrow> string \<Rightarrow> string" where
  "py_lstrip s chars = dropWhile (\<lambda>c. c \<in> set chars) s"

section \<open>Flags of the compile command\<close>

text \<open>One pass of the inner loop
  \<open>if arg.startswith(switch): arg = arg.lstrip(switch); ls.append(arg)\<close>.\<close>

definition switch_step :: "string \<Rightarrow> string \<times> string list \<Rightarrow> string \<times> string list" where
  "switch_step sw al =
     (let (arg, ls) = al
      in if startswith arg sw then (py_lstrip arg sw, ls @ [py_lstrip arg sw]) else (arg, ls))"

text \<open>\<open>for arg in compile_commands: for switch, ls in ((include_switch, includes),
  (define_switch, defines)): ...\<close>, the argument rebound by the first switch being the
  one tested by the second.\<close>

fun extract_flags :: "string list \<Rightarrow> string list \<times> string list \<Rightarrow> string list \<times> string list" where
  "extract_flags [] acc = acc"
| "extract_flags (arg # args) (incs, defs) =
     (let (arg1, incs') = switch_step ''-I'' (arg, incs);
          (arg2, defs') = switch_step ''-D'' (arg1, defs)
      in extract_flags args (incs', defs'))"

section \<open>Errors of the driver\<close>

datatype derror = AssertionErr | TypeErr | KeyErr | IndexErr | JsonErr | ProcessErr error

text \<open>
  \<open>main\<close>'s own \<open>parse_define\<close>: \<open>s.split('=')\<close>, \<open>assert len(s) <= 2\<close>, a name
  alone gives \<open>(name, None)\<close>, and \<open>tuple(*s)\<close> on two pieces is
  \<open>tuple('K', 'V')\<close>, which raises \<open>TypeError\<close>.
\<close>

definition main_parse_define :: "string \<Rightarrow> derror + string \<times> string option" where
  "main_parse_define s =
     (let p = split_on (CHR ''='') s
      in if \<not> length p \<le> 2 then Inl AssertionErr
         else if length p = 1 then Inr (hd p, None)
         else Inl TypeErr)"

text \<open>\<open>[parse_define(e) for e in defines]\<close>: the first exception ends the list.\<close>

fun parse_defines :: "string list \<Rightarrow> derror + (string \<times> string option) list" where
  "parse_defines [] = Inr []"
| "parse_defines (d # ds) =
     (case main_parse_define d of
        Inl e \<Rightarrow> Inl e
      | Inr p \<Rightarrow> (case parse_defines ds of Inl e \<Rightarrow> Inl e | Inr ps \<Rightarrow> Inr (p # ps)))"

text \<open>\<open>dict(pairs)\<close>: a later pair overrides an earlier one with the same key.\<close>

definition py_dict :: "('k \<times> 'v) list \<Rightarrow> 'k \<rightharpoonup> 'v" where
  "py_dict ps = map_of (rev ps)"

section \<open>The driver\<close>

text \<open>
  The host operations \<open>main\<close> calls: \<open>Path(s)\<close>, \<open>p.absolute()\<close>, the file
  system \<open>process_file\<close> reads, and \<open>json.load\<close> of the compile database at a path
  with each entry's \<open>e['file']\<close> and \<open>e['command']\<close> (\<open>None\<close> when the file cannot
  be opened or is not such a list).
\<close>

record 'p host =
  host_fs :: "'p fsys"
  host_path :: "string \<Rightarrow> 'p"
  host_absolute :: "'p \<Rightarrow> 'p"
  host_json :: "'p \<Rightarrow> (string \<times> string) list option"

text \<open>
  \<open>main()\<close> on \<open>sys.argv[1:]\<close>, with \<open>n\<close> levels of include recursion: the result
  is \<open>None\<close> when they run out, an exception, or what is printed (\<open>print(src)\<close>
  adds a newline; nothing under \<open>-q\<close>). \<open>filepaths.pop(0)\<close> on a short list is
  \<open>IndexErr\<close>, a missing entry of the database \<open>KeyErr\<close>.
\<close>

definition main_model :: "nat \<Rightarrow> 'p host \<Rightarrow> string list \<Rightarrow> (derror + string option) option" where
  "main_model n h argv =
     (let (opts, args) = parse_options options_init argv;
          filepaths = map (\<lambda>a. host_absolute h (host_path h a)) args
      in if length filepaths < 3 then Some (Inl IndexErr)
         else
           (case host_json h (filepaths ! 0) of
              None \<Rightarrow> Some (Inl JsonErr)
            | Some entries \<Rightarrow>
                (case py_dict (map (\<lambda>(f, c). (host_absolute h (host_path h f), c)) entries)
                        (filepaths ! 1) of
                   None \<Rightarrow> Some (Inl KeyErr)
                 | Some cmd \<Rightarrow>
                     (let (incs, defs) = extract_flags (py_split (py_strip cmd)) ([], [])
                      in case parse_defines defs of
                           Inl e \<Rightarrow> Some (Inl e)
                         | Inr pairs \<Rightarrow>
                             map_option
                               (map_sum ProcessErr
                                  (\<lambda>src. if opt_quiet opts then None else Some (src @ [newline])))
                               (process n
                                  \<lparr>cfg_fs = host_fs h, cfg_includes = map (host_path h) incs,
                                   passthrough_defines = opt_passthrough_defines opts\<rparr>
                                  (host_absolute h (filepaths ! 2)) (py_dict pairs))))))"

text \<open>\<open>sep.join(ws)\<close>, the inverse the round trip of \<open>str.split()\<close> is stated against.\<close>

fun py_join :: "string \<Rightarrow> string list \<Rightarrow> string" where
  "py_join sep [] = []"
| "py_join sep [w] = w"
| "py_join sep (w # v # ws) = w @ sep @ py_join sep (v # ws)"

section \<open>Lemmas\<close>

lemma split_on_no_sep: "sep \<notin> set s \<Longrightarrow> split_on sep s = [s]"
  by (induction s) (auto simp: Let_def)

lemma length_split_on: "length (split_on sep s) = Suc (length (filter ((=) sep) s))"
proof (induction s)
  case Nil
  then show ?case by simp
next
  case (Cons c s)
  have "split_on sep s \<noteq> []" using Cons.IH by (cases "split_on sep s") auto
  with Cons.IH show ?case by (auto simp: Let_def)
qed

lemma startswith_Cons: "startswith s (c # p) \<longleftrightarrow> s \<noteq> [] \<and> hd s = c \<and> startswith (tl s) p"
  by (cases s) (auto simp: startswith_def)

lemma lstrip_I_not_D: "\<not> startswith (py_lstrip a ''-I'') ''-D''"
proof -
  have "py_lstrip a ''-I'' = [] \<or> hd (py_lstrip a ''-I'') \<noteq> CHR ''-''"
    using hd_dropWhile [of "\<lambda>c. c \<in> set ''-I''" a] by (auto simp: py_lstrip_def)
  then show ?thesis by (auto simp: startswith_Cons)
qed

lemma switch_step_I: "switch_step ''-I'' (a, incs) =
    (if startswith a ''-I'' then (py_lstrip a ''-I'', incs @ [py_lstrip a ''-I'']) else (a, incs))"
  by (simp add: switch_step_def)

lemma switch_step_D: "switch_step ''-D'' (a, defs) =
    (if startswith a ''-D'' then (py_lstrip a ''-D'', defs @ [py_lstrip a ''-D'']) else (a, defs))"
  by (simp add: switch_step_def)

lemma I_not_D: "startswith a ''-I'' \<Longrightarrow> \<not> startswith a ''-D''"
  by (auto simp: startswith_Cons)

lemma split_acc_word: "\<forall>c \<in> set w. \<not> is_space c \<Longrightarrow> split_acc cur (w @ s) = split_acc (cur @ w) s"
  by (induction w arbitrary: cur) auto

lemma parse_defines_TypeErr:
  "\<forall>d \<in> set ds. length (filter ((=) (CHR ''='')) d) \<le> 1 \<Longrightarrow> \<exists>d \<in> set ds. CHR ''='' \<in> set d \<Longrightarrow>
   parse_defines ds = Inl TypeErr"
proof (induction ds)
  case Nil
  then show ?case by simp
next
  case (Cons d ds)
  show ?case
  proof (cases "CHR ''='' \<in> set d")
    case True
    then have "filter ((=) (CHR ''='')) d \<noteq> []" by (auto simp: filter_empty_conv)
    with Cons.prems(1) have "length (filter ((=) (CHR ''='')) d) = 1"
      by (cases "filter ((=) (CHR ''='')) d") auto
    then have "length (split_on (CHR ''='') d) = 2" by (simp add: length_split_on)
    then show ?thesis by (simp add: main_parse_define_def)
  next
    case False
    with Cons.prems have "parse_defines ds = Inl TypeErr" by (intro Cons.IH) auto
    with False show ?thesis by (simp add: main_parse_define_def split_on_no_sep)
  qed
qed

text \<open>Bare names, as \<open>-D\<close> flags without \<open>=\<close>, are parsed one by one and become
  symbols without value.\<close>

lemma parse_defines_bare:
  "\<forall>d \<in> set ds. CHR ''='' \<notin> set d \<Longrightarrow> parse_defines ds = Inr (map (\<lambda>d. (d, None)) ds)"
  by (induction ds) (simp_all add: main_parse_define_def split_on_no_sep)

lemma py_dict_bare: "py_dict (map (\<lambda>d. (d, None)) ds) k = (if k \<in> set ds then Some None else None)"
  by (induction ds rule: rev_induct) (auto simp: py_dict_def)

section \<open>Properties\<close>

text \<open>
  C32. The option loop consumes exactly the longest prefix of \<open>sys.argv[1:]\<close> made of
  known option texts, sets one attribute per consumed option, and leaves the rest
  (empty, or starting with a text that is no option) as the file paths.
\<close>

theorem options_are_longest_prefix:
  "parse_options opts args = (opts', rest) \<Longrightarrow>
   \<exists>pre. args = pre @ rest \<and> set pre \<subseteq> fst ` set options_params
     \<and> (rest = [] \<or> hd rest \<notin> fst ` set options_params)
     \<and> opts' = fold (\<lambda>a. set_attr (the (map_of options_params a))) pre opts"
proof (induction opts args rule: parse_options.induct)
  case (1 opts)
  then show ?case by simp
next
  case (2 opts arg args)
  show ?case
  proof (cases "map_of options_params arg")
    case None
    with "2.prems" have "rest = arg # args" and "opts' = opts" by simp_all
    moreover from None have "arg \<notin> fst ` set options_params"
      by (simp add: map_of_eq_None_iff)
    ultimately show ?thesis by (intro exI [of _ "[]"]) simp
  next
    case (Some a)
    with "2.prems" have "parse_options (set_attr a opts) args = (opts', rest)" by simp
    from "2.IH" [OF Some this] obtain pre where
      "args = pre @ rest" "set pre \<subseteq> fst ` set options_params"
      "rest = [] \<or> hd rest \<notin> fst ` set options_params"
      "opts' = fold (\<lambda>a. set_attr (the (map_of options_params a))) pre (set_attr a opts)"
      by blast
    moreover from Some have "arg \<in> fst ` set options_params"
      by (auto dest: map_of_SomeD intro: rev_image_eqI)
    ultimately show ?thesis using Some by (intro exI [of _ "arg # pre"]) simp
  qed
qed

text \<open>
  C33. The flags extracted from the compile command are exactly the arguments that
  start with \<open>-I\<close> (resp. \<open>-D\<close>), in order, each passed through
  \<open>lstrip('-I')\<close> (resp. \<open>lstrip('-D')\<close>); no argument lands in both lists, because
  the stripped \<open>-I\<close> argument never starts with \<open>-\<close>.
\<close>

theorem flags_are_filtered_arguments:
  "extract_flags args (incs, defs) =
     (incs @ map (\<lambda>a. py_lstrip a ''-I'') (filter (\<lambda>a. startswith a ''-I'') args),
      defs @ map (\<lambda>a. py_lstrip a ''-D'') (filter (\<lambda>a. startswith a ''-D'') args))"
proof (induction args arbitrary: incs defs)
  case Nil
  then show ?case by simp
next
  case (Cons a args)
  show ?case
  proof (cases "startswith a ''-I''")
    case True
    then show ?thesis
      using Cons.IH I_not_D [OF True] lstrip_I_not_D [of a] by (simp add: switch_step_I switch_step_D)
  next
    case False
    then show ?thesis using Cons.IH by (simp add: switch_step_I switch_step_D)
  qed
qed

text \<open>
  C34. A flag \<open>-DNAME\<close> is read as \<open>NAME\<close> exactly when \<open>NAME\<close> is empty or does
  not start with \<open>-\<close> or \<open>D\<close>: \<open>lstrip('-D')\<close> removes every leading \<open>-\<close> and
  \<open>D\<close>, so \<open>-DDEBUG\<close> defines \<open>EBUG\<close>.
\<close>

theorem define_flag_read_exactly_iff:
  "extract_flags [''-D'' @ k] ([], []) = ([], [k]) \<longleftrightarrow>
     (k = [] \<or> hd k \<notin> set ''-D'')"
proof -
  have "extract_flags [''-D'' @ k] ([], []) = ([], [py_lstrip (''-D'' @ k) ''-D''])"
    by (simp add: flags_are_filtered_arguments startswith_def)
  moreover have "py_lstrip (''-D'' @ k) ''-D'' = k \<longleftrightarrow> (k = [] \<or> hd k \<notin> set ''-D'')"
  proof (cases k)
    case Nil
    then show ?thesis by (simp add: py_lstrip_def)
  next
    case (Cons c k')
    have "dropWhile (\<lambda>x. x \<in> set ''-D'') (c # k') \<noteq> c # k'" if "c \<in> set ''-D''"
      using that length_dropWhile_le [of _ k'] by (metis dropWhile.simps(2) impossible_Cons)
    with Cons show ?thesis by (auto simp: py_lstrip_def)
  qed
  ultimately show ?thesis by simp
qed

text \<open>
  C35. \<open>main\<close>'s \<open>parse_define\<close> accepts only a bare name: a \<open>-D\<close> flag with one
  \<open>=\<close> (\<open>-DK=V\<close>) raises \<open>TypeError\<close> in \<open>tuple(*s)\<close>, and one with more
  raises \<open>AssertionError\<close>.
\<close>

theorem main_parse_define_cases:
  "main_parse_define s =
     (if CHR ''='' \<notin> set s then Inr (s, None)
      else if length (filter ((=) (CHR ''='')) s) = 1 then Inl TypeErr
      else Inl AssertionErr)"
proof (cases "CHR ''='' \<in> set s")
  case False
  then show ?thesis by (simp add: main_parse_define_def split_on_no_sep)
next
  case True
  then have "filter ((=) (CHR ''='')) s \<noteq> []" by (auto simp: filter_empty_conv)
  then obtain x xs where "filter ((=) (CHR ''='')) s = x # xs" by (cases "filter ((=) (CHR ''='')) s") auto
  with True show ?thesis by (simp add: main_parse_define_def length_split_on Let_def)
qed

text \<open>
  \<open>str.split()\<close> inverts \<open>' '.join\<close>: a command line written as words without
  whitespace, separated by single spaces, is split back into those words.
\<close>

theorem split_join_roundtrip:
  "\<forall>w \<in> set ws. w \<noteq> [] \<and> (\<forall>c \<in> set w. \<not> is_space c) \<Longrightarrow>
   py_split (py_join '' '' ws) = ws"
proof (induction ws rule: induct_list012)
  case 1
  then show ?case by (simp add: py_split_def)
next
  case (2 w)
  then show ?case using split_acc_word [of w "[]" "[]"] by (simp add: py_split_def)
next
  case (3 w w2 ws)
  have sp: "is_space (CHR '' '')" by (simp add: is_space_def)
  have "py_split (py_join '' '' (w2 # ws)) = w2 # ws"
    using "3.prems" by (intro "3.IH"(2)) simp
  moreover have "split_acc [] (w @ CHR '' '' # py_join '' '' (w2 # ws))
      = w # split_acc [] (py_join '' '' (w2 # ws))"
    using "3.prems" sp split_acc_word [of w "[]"] by simp
  ultimately show ?case by (simp add: py_split_def)
qed

text \<open>
  C38. A \<open>-D\<close> flag with a value in the compile command aborts \<open>main\<close> with
  \<open>TypeError\<close> before any file is read, once the database entry is found (and no
  \<open>-D\<close> flag has two \<open>=\<close>, which would raise \<open>AssertionError\<close> first).
\<close>

theorem value_define_aborts_main:
  assumes opts: "parse_options options_init argv = (opts, a # b # c # rest)"
    and db: "host_json h (host_absolute h (host_path h a)) = Some es"
    and entry: "py_dict (map (\<lambda>(f, c). (host_absolute h (host_path h f), c)) es)
                  (host_absolute h (host_path h b)) = Some cmd"
    and flags: "extract_flags (py_split (py_strip cmd)) ([], []) = (incs, defs)"
    and one: "\<forall>d \<in> set defs. length (filter ((=) (CHR ''='')) d) \<le> 1"
    and val: "\<exists>d \<in> set defs. CHR ''='' \<in> set d"
  shows "main_model n h argv = Some (Inl TypeErr)"
  using opts db entry flags parse_defines_TypeErr [OF one val] by (simp add: main_model_def)

text \<open>
  C39. What \<open>main\<close> runs: once the database entry of the second path is found and
  no \<open>-D\<close> flag of its command carries a value, \<open>main\<close> processes the third path
  with the \<open>-I\<close> arguments (stripped, in order) as include directories, the
  stripped \<open>-D\<close> names as symbols without value, \<open>--passthrough-defines\<close> as
  given, and prints the result followed by a newline unless \<open>-q\<close> was given.
\<close>

theorem main_runs_process:
  assumes opts: "parse_options options_init argv = (opts, a # b # c # rest)"
    and db: "host_json h (host_absolute h (host_path h a)) = Some es"
    and entry: "py_dict (map (\<lambda>(f, cm). (host_absolute h (host_path h f), cm)) es)
                  (host_absolute h (host_path h b)) = Some cmd"
    and bare: "\<forall>w \<in> set (py_split (py_strip cmd)).
                 startswith w ''-D'' \<longrightarrow> CHR ''='' \<notin> set (py_lstrip w ''-D'')"
  shows "main_model n h argv =
    map_option (map_sum ProcessErr (\<lambda>src. if opt_quiet opts then None else Some (src @ [newline])))
      (process n
        \<lparr>cfg_fs = host_fs h,
         cfg_includes = map (host_path h)
           (map (\<lambda>w. py_lstrip w ''-I'') (filter (\<lambda>w. startswith w ''-I'') (py_split (py_strip cmd)))),
         passthrough_defines = opt_passthrough_defines opts\<rparr>
        (host_absolute h (host_absolute h (host_path h c)))
        (\<lambda>k. if k \<in> set (map (\<lambda>w. py_lstrip w ''-D'')
                          (filter (\<lambda>w. startswith w ''-D'') (py_split (py_strip cmd))))
              then Some None else None))"
proof -
  let ?ws = "py_split (py_strip cmd)"
  let ?D = "map (\<lambda>w. py_lstrip w ''-D'') (filter (\<lambda>w. startswith w ''-D'') ?ws)"
  have fl: "extract_flags ?ws ([], []) =
      (map (\<lambda>w. py_lstrip w ''-I'') (filter (\<lambda>w. startswith w ''-I'') ?ws), ?D)"
    by (simp add: flags_are_filtered_arguments)
  have "\<forall>d \<in> set ?D. CHR ''='' \<notin> set d" using bare by auto
  then have pd: "parse_defines ?D = Inr (map (\<lambda>d. (d, None)) ?D)" by (rule parse_defines_bare)
  have dict: "py_dict (map (\<lambda>d. (d, None)) ?D) = (\<lambda>k. if k \<in> set ?D then Some None else None)"
    by (rule ext) (rule py_dict_bare)
  have "main_model n h argv =
    map_option (map_sum ProcessErr (\<lambda>src. if opt_quiet opts then None else Some (src @ [newline])))
      (process n
        \<lparr>cfg_fs = host_fs h,
         cfg_includes = map (host_path h)
           (map (\<lambda>w. py_lstrip w ''-I'') (filter (\<lambda>w. startswith w ''-I'') ?ws)),
         passthrough_defines = opt_passthrough_defines opts\<rparr>
        (host_absolute h (host_absolute h (host_path h c)))
        (py_dict (map (\<lambda>d. (d, None)) ?D)))"
    using opts db entry fl pd by (simp add: main_model_def)
  then show ?thesis unfolding dict .
qed

end
