(* ===== verification/Runs.thy ===== *)
theory Runs
  imports Processor
begin

text \<open>
  Whole-file behaviour of \<open>process_file\<close> (src/c-preprocess.py), stated over any
  configuration, symbol table, registry and fuel: how a conditional block with an
  \<open>#else\<close> is flattened, where markers are and are not written, what an open
  block at the end of the file does, how an include leaves the includer's state, what
  \<open>passthrough_defines\<close> changes, and what the \<open>#pragma once\<close> registry compares.
  The proofs run the loop over blocks of lines with the shared lemmas of
  \<open>Processor\<close> (\<open>plain_prefix\<close>, \<open>plain_lines\<close>, \<open>line_include_Descend\<close>) and
  the two below.
\<close>

section \<open>Blocks of lines\<close>

text \<open>Lines of plain text in an inactive block are skipped without any effect.\<close>

lemma inactive_plain:
  "\<forall>l \<in> set b. match_command l = None \<Longrightarrow> \<not> is_valid (st_cond st) \<Longrightarrow>
   process_lines n cfg fp i (b @ ls) st inc = process_lines n cfg fp (i + length b) ls st inc"
  by (induction b arbitrary: i) auto

text \<open>With \<open>passthrough_defines\<close>, a well-formed \<open>#define\<close> line in an active block
  is emitted like a line of text.\<close>

lemma define_plain_lines:
  assumes "passthrough_defines cfg"
  shows "\<forall>l \<in> set ls. match_command l = None \<or>
           (\<exists>rest k v. match_command l = Some (CDefine, rest) \<and> parse_define rest = Some (k, v)) \<Longrightarrow>
   is_valid (st_cond st) \<Longrightarrow>
   process_lines n cfg fp i ls st inc =
     Some (Inr (emitted (emit_from (fs_str (cfg_fs cfg) fp) i ls (st_out st)), inc))"
proof (induction ls arbitrary: i st)
  case Nil
  then show ?case by simp
next
  case (Cons l ls)
  show ?case
  proof (cases "match_command l")
    case None
    with Cons show ?thesis by simp
  next
    case (Some p)
    with Cons.prems obtain rest k v where m: "p = (CDefine, rest)" and d: "parse_define rest = Some (k, v)"
      by auto
    let ?st = "st\<lparr>st_defines := sym_define (st_defines st) k v,
                  st_out := emit (fs_str (cfg_fs cfg) fp) i l (st_out st)\<rparr>"
    have "process_lines n cfg fp (Suc i) ls ?st inc =
        Some (Inr (emitted (emit_from (fs_str (cfg_fs cfg) fp) (Suc i) ls (st_out ?st)), inc))"
      using Cons.prems by (intro Cons.IH) simp_all
    with Some m d Cons.prems(2) assms show ?thesis by simp
  qed
qed

lemma cstack_eta [simp]: "\<lparr>ifs = ifs cs, allow_else = allow_else cs\<rparr> = cs"
  by (cases cs) simp

section \<open>Properties\<close>

text \<open>
  C6. \<open>#else\<close> does not switch off a taken branch: in an active block, a
  \<open>#ifdef X\<close> with \<open>X\<close> defined, followed by lines of text, \<open>#else\<close>, lines of
  text and \<open>#endif\<close>, emits the lines of both branches, each at its own line
  number, and leaves the symbols and the conditional stack as they were.
\<close>

theorem ifdef_taken_keeps_else:
  assumes valid: "is_valid (st_cond st)"
    and cif: "match_command lif = Some (CIfdef, r1)" and x: "parse_ident r1 = Some x"
    and def: "sym_defined (st_defines st) x"
    and b1: "\<forall>l \<in> set b1. match_command l = None"
    and celse: "match_command lelse = Some (CElse, r2)"
    and b2: "\<forall>l \<in> set b2. match_command l = None"
    and cend: "match_command lend = Some (CEndif, r3)"
  shows "process_lines n cfg fp i (lif # b1 @ lelse # b2 @ lend # ls) st inc =
    process_lines n cfg fp (i + length b1 + length b2 + 3) ls
      (st\<lparr>st_out := emit_from (fs_str (cfg_fs cfg) fp) (i + length b1 + 2) b2
                       (emit_from (fs_str (cfg_fs cfg) fp) (Suc i) b1 (st_out st))\<rparr>) inc"
  using assms
  by (simp add: plain_prefix add_if_def is_valid_def else_op_def endif_op_def numeral_3_eq_3)

text \<open>
  C7. \<open>#else\<close> switches on an untaken branch: in an active block, a
  \<open>#ifndef X\<close> with \<open>X\<close> defined, followed by lines of text, \<open>#else\<close>, lines of
  text and \<open>#endif\<close>, emits only the lines after \<open>#else\<close>, and leaves the
  symbols and the conditional stack as they were.
\<close>

theorem ifndef_untaken_takes_else:
  assumes valid: "is_valid (st_cond st)"
    and cif: "match_command lif = Some (CIfndef, r1)" and x: "parse_ident r1 = Some x"
    and def: "sym_defined (st_defines st) x"
    and b1: "\<forall>l \<in> set b1. match_command l = None"
    and celse: "match_command lelse = Some (CElse, r2)"
    and b2: "\<forall>l \<in> set b2. match_command l = None"
    and cend: "match_command lend = Some (CEndif, r3)"
  shows "process_lines n cfg fp i (lif # b1 @ lelse # b2 @ lend # ls) st inc =
    process_lines n cfg fp (i + length b1 + length b2 + 3) ls
      (st\<lparr>st_out := emit_from (fs_str (cfg_fs cfg) fp) (i + length b1 + 2) b2 (st_out st)\<rparr>) inc"
  using assms
  by (simp add: plain_prefix inactive_plain add_if_def is_valid_def else_op_def take_branch_def
      endif_op_def numeral_3_eq_3)

text \<open>
  C23. A file whose first line is a \<open>#define\<close> (without
  \<open>passthrough_defines\<close>) and whose other lines are text comes back as those
  lines with no marker at all: the first emitted line has index 1 and
  \<open>last_iline\<close> starts at 0, so the output never names its file.
\<close>

theorem first_line_one_has_no_marker:
  assumes rd: "fs_read (cfg_fs cfg) fp = Some text" and lines: "readlines text = l0 # ls"
    and def: "match_command l0 = Some (CDefine, rest)" "parse_define rest = Some (k, v)"
    and nopass: "\<not> passthrough_defines cfg"
    and plain: "\<forall>l \<in> set ls. match_command l = None"
  shows "process_file (Suc n) cfg fp defs inc = Some (Inr (concat ls, inc))"
proof -
  let ?st = "(init_state defs)\<lparr>st_defines := sym_define defs k v\<rparr>"
  have "process_lines n cfg fp 1 ls ?st inc =
      Some (Inr (emitted (emit_from (fs_str (cfg_fs cfg) fp) 1 ls emitter_init), inc))"
    using plain_lines [OF plain, of ?st] by (simp add: init_state_def empty_cstack_def is_valid_def)
  moreover have "emitted (emit_from (fs_str (cfg_fs cfg) fp) 1 ls emitter_init) = concat ls"
    using emit_from_contiguous [of emitter_init 1] by (simp add: emitter_init_def emitted_def)
  ultimately show ?thesis
    using rd lines def nopass by (simp add: init_state_def empty_cstack_def is_valid_def)
qed

text \<open>
  C24. After an include on line \<open>i\<close> whose text is not blank, the marker written
  names line \<open>i\<close>, and the lines of text that follow (lines \<open>i + 1\<close>, ...) are
  emitted with no marker of their own: they are attributed to one line before
  their own.
\<close>

theorem include_marker_off_by_one:
  assumes inc_line: "line_include cfg fp l = Some sub" and valid: "is_valid (st_cond st)"
    and sub: "process_file n cfg sub (st_defines st) inc = Some (Inr (s, inc'))"
    and nonblank: "py_strip s \<noteq> []"
    and plain: "\<forall>l \<in> set ls. match_command l = None"
  shows "process_lines n cfg fp i (l # ls) st inc =
    Some (Inr (emitted (st_out st) @ s @ line_str i (fs_str (cfg_fs cfg) fp) @ concat ls, inc'))"
proof -
  let ?em = "splice_include (fs_str (cfg_fs cfg) fp) i s (st_out st)"
  have step: "line_step cfg fp i l (match_command l) st inc = Descend sub"
    using inc_line valid by (rule line_include_Descend)
  have "process_lines n cfg fp (Suc i) ls (st\<lparr>st_out := ?em\<rparr>) inc' =
      Some (Inr (emitted (emit_from (fs_str (cfg_fs cfg) fp) (Suc i) ls ?em), inc'))"
    using plain_lines [OF plain, of "st\<lparr>st_out := ?em\<rparr>"] valid by simp
  moreover have "emitted (emit_from (fs_str (cfg_fs cfg) fp) (Suc i) ls ?em) = emitted ?em @ concat ls"
    using nonblank by (intro emit_from_contiguous) (simp add: splice_include_def)
  ultimately show ?thesis
    using step sub nonblank by (simp add: emitted_splice_include)
qed

text \<open>
  C25. An open block at the end of a file is accepted: a file that starts with
  \<open>#ifdef X\<close> for an undefined \<open>X\<close> and has only lines of text after it returns
  without error (and without any of those lines), although its conditional stack
  is not empty at the end.
\<close>

theorem unbalanced_conditional_accepted:
  assumes rd: "fs_read (cfg_fs cfg) fp = Some text" and lines: "readlines text = l0 # ls"
    and cif: "match_command l0 = Some (CIfdef, rest)" "parse_ident rest = Some x"
    and undef: "\<not> sym_defined defs x"
    and plain: "\<forall>l \<in> set ls. match_command l = None"
  shows "process_file (Suc n) cfg fp defs inc = Some (Inr ([], inc))"
proof -
  let ?st = "(init_state defs)\<lparr>st_cond := add_if False empty_cstack\<rparr>"
  have "\<not> is_valid (st_cond ?st)" by (simp add: add_if_def is_valid_def empty_cstack_def)
  from inactive_plain [OF plain this, of n cfg fp 1 "[]"]
  have "process_lines n cfg fp 1 ls ?st inc = Some (Inr ([], inc))"
    by (simp add: init_state_def emitted_init)
  with rd lines cif undef show ?thesis by (simp add: init_state_def empty_cstack_def is_valid_def)
qed


text \<open>
  C36. With \<open>passthrough_defines\<close>, a file made of lines of text and well-formed
  \<open>#define\<close> lines comes back whole, behind the leading marker, exactly like a
  file of text: every active \<open>#define\<close> is emitted verbatim.
\<close>

theorem passthrough_keeps_define_lines:
  assumes pass: "passthrough_defines cfg"
    and rd: "fs_read (cfg_fs cfg) fp = Some text" and nonempty: "text \<noteq> []"
    and lines_ok: "\<forall>l \<in> set (readlines text). match_command l = None \<or>
          (\<exists>rest k v. match_command l = Some (CDefine, rest) \<and> parse_define rest = Some (k, v))"
  shows "process_file (Suc n) cfg fp defs inc =
    Some (Inr (line_str 0 (fs_str (cfg_fs cfg) fp) @ text, inc))"
proof -
  obtain l0 ls where lines: "readlines text = l0 # ls"
    using nonempty by (cases "readlines text") (auto simp: readlines_def readlines_acc_empty_iff)
  let ?fps = "fs_str (cfg_fs cfg) fp"
  have "emitted (emit_from ?fps 1 ls (emit ?fps 0 l0 emitter_init)) =
      emitted (emit ?fps 0 l0 emitter_init) @ concat ls"
    by (rule emit_from_contiguous) (simp add: last_iline_emit)
  moreover have "last_iline emitter_init = 0" by (simp add: emitter_init_def)
  ultimately have out: "emitted (emit_from ?fps 0 (l0 # ls) emitter_init) = line_str 0 ?fps @ text"
    using concat_readlines_acc [of "[]" "text"] lines
    by (simp add: emitted_emit emitted_init readlines_def)
  have "process_lines n cfg fp 0 (l0 # ls) (init_state defs) inc =
      Some (Inr (emitted (emit_from ?fps 0 (l0 # ls) emitter_init), inc))"
    using define_plain_lines [OF pass, of "l0 # ls" "init_state defs"] lines_ok lines init_valid
    by (simp add: init_state_def)
  with rd lines out show ?thesis by simp
qed

text \<open>
  C40. \<open>#pragma once\<close> compares paths, not files: of two paths with the same
  text, guarded by \<open>#pragma once\<close> and followed by lines of text, the one already
  in the registry returns \<open>''\<close>, while the other is processed in full and
  registered, although it is the same file reached by another spelling.
\<close>

theorem pragma_once_keyed_by_path:
  assumes rp: "fs_read (cfg_fs cfg) p = Some text" and rq: "fs_read (cfg_fs cfg) q = Some text"
    and p: "p \<in> inc" and q: "q \<notin> inc"
    and lines: "readlines text = l0 # ls"
    and prag: "match_command l0 = Some (CPragma, rest)" "parse_pragma rest = Some ''once''"
    and plain: "\<forall>l \<in> set ls. match_command l = None"
  shows "process_file (Suc n) cfg p defs inc = Some (Inr ([], inc))
    \<and> process_file (Suc n) cfg q defs inc = Some (Inr (concat ls, insert q inc))"
proof -
  have pf: "pragma_first text" using lines prag by (simp add: pragma_first_def)
  have "process_lines n cfg q 1 ls (init_state defs) (insert q inc) =
      Some (Inr (emitted (emit_from (fs_str (cfg_fs cfg) q) 1 ls emitter_init), insert q inc))"
    using plain_lines [OF plain init_valid] by (simp add: init_state_def)
  moreover have "emitted (emit_from (fs_str (cfg_fs cfg) q) 1 ls emitter_init) = concat ls"
    using emit_from_contiguous [of emitter_init 1] by (simp add: emitter_init_def emitted_def)
  ultimately show ?thesis
    using pragma_first_step [OF rp pf] pragma_first_step [OF rq pf] p q lines
    by (simp del: process_file.simps)
qed

end
