(* ===== verification/Spec2Isabelle.thy ===== *)
theory Spec2Isabelle
  imports Driver Runs
begin

text \<open>
  \<^bold>\<open>A verification library for src/c-preprocess.py.\<close>

  The program is a small C preprocessor. \<open>process_file\<close> reads a file line by
  line, classifies each line with \<open>command_re\<close>, keeps a stack of conditional
  blocks (\<open>ifs\<close>, \<open>allow_else\<close>), a symbol table (\<open>defines\<close>), the output pieces
  \<open>res\<close> with \<open>last_iline\<close>, and a registry \<open>included_filepaths\<close> shared by the
  whole run for \<open>#pragma once\<close>. An active \<open>#include\<close> is resolved against the
  includer's directory and the include directories and processed by a recursive call
  whose text is spliced into the output behind a \<open>//path\n#line n\n\<close> marker.
  \<open>main\<close> reads options, a compile database and the \<open>-I\<close>/\<open>-D\<close> flags of one
  entry, and prints the result.

  \<^bold>\<open>Theories.\<close>
  \<^item> \<open>Prelude\<close>: Python's \<open>\s\<close> and \<open>\w\<close> on Latin-1 characters (\<open>is_space\<close>,
    \<open>is_word\<close>), \<open>f.readlines()\<close> (\<open>readlines\<close>), \<open>str.strip()\<close> (\<open>py_strip\<close>),
    decimal printing of a line number (\<open>string_of_nat\<close>) with its inverse, and the
    collection \<open>pp_simps\<close> the component proofs share.
  \<^item> \<open>Symbols\<close>: \<open>defines\<close> as a map \<open>symtab\<close>; \<open>in\<close>, assignment and \<open>del\<close>
    (\<open>sym_defined\<close>, \<open>sym_define\<close>, \<open>sym_undef\<close>, \<open>None\<close> for the \<open>KeyError\<close>).
  \<^item> \<open>CondStack\<close>: the record \<open>cstack\<close> of the two lists (head = \<open>[-1]\<close>),
    \<open>is_valid\<close>, \<open>add_if\<close>, and the \<open>#endif\<close>/\<open>#else\<close>/\<open>#elif\<close> updates
    (\<open>endif_op\<close>, \<open>else_op\<close>, \<open>take_branch\<close>, \<open>elif_allowed\<close>, lines 46-58 and
    89-133); the operations as a datatype \<open>cond_op\<close> with \<open>cs_step\<close>, the inductive
    reachability \<open>cs_reachable\<close>, the invariant \<open>cs_inv\<close>, a naive reference
    stack (\<open>ns_step\<close>) that keeps each block's own flag and checks all ancestors,
    and well-nestedness of a directive sequence (\<open>nested\<close>).
  \<^item> \<open>Directive\<close>: \<open>command_re\<close> and the per-directive expressions of lines 9-24 as
    matchers (\<open>match_command\<close>, \<open>parse_ident\<close>, \<open>parse_include\<close>,
    \<open>parse_define\<close>, \<open>parse_if\<close>, \<open>parse_function\<close>, \<open>parse_pragma\<close>): the regular
    expressions are written out as \<open>takeWhile\<close>/\<open>dropWhile\<close> with the
    alternation order and greediness of Python's \<open>re\<close>.
  \<^item> \<open>Emitter\<close>: the record \<open>emitter\<close> (\<open>res\<close>, \<open>last_iline\<close>), \<open>line_str\<close>,
    \<open>emit\<close> and \<open>splice_include\<close> (lines 65-78, 151-156), and the consumer side
    of the markers: \<open>read_marker\<close>, and \<open>attrib\<close>, which attributes every emitted
    piece to the position the last marker and the count of lines since give.
  \<^item> \<open>Resolver\<close>: \<open>these_includes\<close> and the first-existing-directory loop
    (\<open>search_dirs\<close>, \<open>find_include\<close>, \<open>resolve_include\<close>, lines 144-159) over an
    abstract file system, the record \<open>fsys\<close> of \<open>pathlib\<close> operations.
  \<^item> \<open>Processor\<close>: the per-file state \<open>file_state\<close>, the loop body as
    \<open>line_step\<close> (conditional directives) and \<open>active_step\<close> (the \<open>elif is_valid()\<close>
    branch), and \<open>process_file\<close>/\<open>process_lines\<close> as mutually recursive functions.
    Every exception is a value of \<open>error\<close>; a line's effect is a \<open>step\<close>
    (\<open>Continue\<close>, \<open>Fail\<close>, \<open>Stop\<close> for the \<open>return ''\<close> of \<open>#pragma once\<close>,
    \<open>Descend\<close> for an include); the registry is threaded through every call and
    returned with the output, since Python shares the set by reference.
  \<^item> \<open>Runs\<close>: whole-file behaviour of \<open>process_file\<close> over any configuration,
    symbols, registry and fuel: conditional blocks with \<open>#else\<close>, markers,
    open blocks at the end of a file, include scoping, \<open>passthrough_defines\<close>,
    and the identity \<open>#pragma once\<close> compares.
  \<^item> \<open>Driver\<close>: \<open>main\<close> (lines 193-268): the record \<open>options\<close> and the option
    loop \<open>parse_options\<close>, \<open>str.split\<close>, \<open>startswith\<close> and \<open>lstrip\<close>, the
    \<open>-I\<close>/\<open>-D\<close> extraction \<open>extract_flags\<close>, \<open>main\<close>'s own \<open>parse_define\<close>
    (\<open>main_parse_define\<close>), \<open>dict\<close> (\<open>py_dict\<close>), and \<open>main_model\<close>, which
    composes them with \<open>process\<close>. \<open>Path\<close>, \<open>.absolute()\<close>, the file system
    and \<open>json.load\<close> are the parameter record \<open>host\<close>; the printed text is the
    result. Its contract (C39) says which call of \<open>process_file\<close> a command line
    amounts to.
  \<^item> this theory: a concrete file system over string paths (\<open>demo_fs\<close>) and
    host (\<open>demo_host\<close>), the example files, the divergence of a file that includes
    itself (C22), and a witness for every property with hypotheses, which evaluates
    it on one of the example files.

  \<^bold>\<open>Fuel.\<close> The only unbounded recursion of the program is the include
  recursion (the loops run over finite lists). \<open>process_file n\<close> has \<open>n\<close> levels of
  include recursion left and is \<open>None\<close> when they run out. Termination is proved as
  such: on a ranked include graph any \<open>n\<close> above the start file's rank gives a
  result (C2); with \<open>#pragma once\<close> in every file any \<open>n\<close> above the number of files
  not yet registered does (C3); more fuel never changes a result (\<open>fuel_mono\<close>);
  and a file
  that includes itself unguarded gives \<open>None\<close> for every \<open>n\<close> (C22).

  \<^bold>\<open>Properties.\<close> The conditional stack: refinement of the
  ancestor-checking stack by the push-time propagation (C1), the invariant (C12),
  depth equal to the nesting depth (C13), and well-nested directives as exactly those
  that end with an empty stack (C29). Termination (C2, C3, C22). The
  \<open>#pragma once\<close> contract (C4) and its notion of identity (C40). Markers: the
  leading \<open>#line 0\<close> (C5), the missing marker at line 1 (C23), the marker after an
  include (C24), the marker text read back (C26), and the attribution of every
  emitted line (C30). Conditional semantics: \<open>#else\<close> after a taken and an untaken
  branch (C6, C7), inactive lines (C8), the order of the \<open>#elif\<close> checks (C9), an
  open block at the end of a file (C25). Errors as values and their propagation out
  of includes (C10, C11, C17, C21, C37). The classifier and its round trips (C14,
  C15, C27, C28); the \<open>#if\<close> evaluator (C16, C17); include resolution (C18-C21);
  symbol scoping across includes (C31); \<open>passthrough_defines\<close> (C36). The
  driver: option loop, flag extraction and its \<open>lstrip\<close> pitfall,
  \<open>parse_define\<close>'s errors (C32-C35, C38), and what \<open>main\<close> runs (C39).

  \<^bold>\<open>Not modelled.\<close> Reading and decoding the JSON file and the path
  algebra of \<open>pathlib\<close> (both parameters of \<open>host\<close> and \<open>fsys\<close>); writing to
  stdout; \<open>main\<close>'s unused \<open>base_path\<close> and \<open>make_relative\<close>; \<open>log\<close>, which
  only prints when verbose; characters above 255 in \<open>\s\<close>/\<open>\w\<close>; Python's
  recursion limit (a run that does not end is \<open>None\<close>); files that are
  directories or unreadable beyond \<open>FileNotFound\<close>.
\<close>

section \<open>A concrete file system for examples\<close>

text \<open>
  Paths are strings; the parent of a path is its prefix up to the last \<open>/\<close>, and
  joining a directory and a relative path is concatenation, as \<open>pathlib\<close> does
  for a directory written with a trailing \<open>/\<close>.
\<close>

definition demo_fs :: "(string \<rightharpoonup> string) \<Rightarrow> string fsys" where
  "demo_fs files =
     \<lparr>fs_read = files, fs_parent = (\<lambda>p. rev (dropWhile (\<lambda>c. c \<noteq> CHR ''/'') (rev p))),
      fs_join = (\<lambda>d p. d @ p), fs_str = id\<rparr>"

definition demo_cfg :: "(string \<rightharpoonup> string) \<Rightarrow> string list \<Rightarrow> string config" where
  "demo_cfg files incs = \<lparr>cfg_fs = demo_fs files, cfg_includes = incs, passthrough_defines = False\<rparr>"

definition dq :: "string \<Rightarrow> string" where
  "dq p = [dquote] @ p @ [dquote]"

text \<open>\<open>A\<close> includes \<open>B\<close>; \<open>B\<close> is one plain line.\<close>

definition files_ab :: "string \<rightharpoonup> string" where
  "files_ab = [''A'' \<mapsto> ''#include '' @ dq ''B'' @ [newline], ''B'' \<mapsto> ''b'' @ [newline]]"

text \<open>\<open>A\<close> starts with \<open>#pragma once\<close> and includes itself.\<close>

definition files_self :: "string \<rightharpoonup> string" where
  "files_self = [''A'' \<mapsto> ''#pragma once'' @ [newline] @ ''#include '' @ dq ''A'' @ [newline] @ ''x'' @ [newline]]"

text \<open>\<open>A\<close> includes itself with no guard.\<close>

definition files_loop :: "string \<rightharpoonup> string" where
  "files_loop = [''A'' \<mapsto> ''#include '' @ dq ''A'' @ [newline]]"

text \<open>A file of two plain lines.\<close>

definition files_plain :: "string \<rightharpoonup> string" where
  "files_plain = [''A'' \<mapsto> ''a'' @ [newline] @ ''b'' @ [newline]]"

text \<open>A file whose first line is a directive and whose second is text.\<close>

definition files_define_first :: "string \<rightharpoonup> string" where
  "files_define_first = [''A'' \<mapsto> ''#define X'' @ [newline] @ ''foo'' @ [newline]]"

text \<open>\<open>A\<close> has a line, an include of \<open>B\<close> and another line.\<close>

definition files_abc :: "string \<rightharpoonup> string" where
  "files_abc = [''A'' \<mapsto> ''a'' @ [newline] @ ''#include '' @ dq ''B'' @ [newline] @ ''c'' @ [newline],
                ''B'' \<mapsto> ''b'' @ [newline]]"

text \<open>An \<open>#ifdef\<close> block that is never closed.\<close>

definition files_unbalanced :: "string \<rightharpoonup> string" where
  "files_unbalanced = [''A'' \<mapsto> ''#ifdef X'' @ [newline] @ ''foo'' @ [newline]]"

text \<open>A \<open>#define\<close> in the includer, tested in the included file.\<close>

definition files_scope_down :: "string \<rightharpoonup> string" where
  "files_scope_down = [''A'' \<mapsto> ''#define X'' @ [newline] @ ''#include '' @ dq ''B'' @ [newline],
                       ''B'' \<mapsto> ''#ifdef X'' @ [newline] @ ''b'' @ [newline] @ ''#endif'' @ [newline]]"

text \<open>One header reached through two spellings of its path, both guarded by
  \<open>#pragma once\<close>.\<close>

definition files_twice :: "string \<rightharpoonup> string" where
  "files_twice = [''A'' \<mapsto> ''#include '' @ dq ''B'' @ [newline] @ ''#include '' @ dq ''d/../B'' @ [newline],
                  ''B'' \<mapsto> ''#pragma once'' @ [newline] @ ''b'' @ [newline],
                  ''d/../B'' \<mapsto> ''#pragma once'' @ [newline] @ ''b'' @ [newline]]"

text \<open>A line of text, then an \<open>#undef\<close> of an undefined name; a line of text,
  then an include that cannot be resolved.\<close>

definition files_undef :: "string \<rightharpoonup> string" where
  "files_undef = [''A'' \<mapsto> ''a'' @ [newline] @ ''#undef X'' @ [newline]]"

definition files_noinc :: "string \<rightharpoonup> string" where
  "files_noinc = [''A'' \<mapsto> ''a'' @ [newline] @ ''#include '' @ dq ''nope'' @ [newline]]"

text \<open>\<open>A\<close> includes \<open>B\<close> after a line of text; \<open>B\<close> removes an undefined name.\<close>

definition files_suberr :: "string \<rightharpoonup> string" where
  "files_suberr = [''A'' \<mapsto> ''a'' @ [newline] @ ''#include '' @ dq ''B'' @ [newline],
                   ''B'' \<mapsto> ''#undef X'' @ [newline]]"

lemmas demo_simps = demo_cfg_def demo_fs_def dq_def files_ab_def files_self_def files_loop_def
  files_plain_def readlines_def pp_simps is_space_def is_word_def
  line_include_def resolve_include_def search_dirs_def fs_exists_def include_edge_def
  pragma_first_def init_state_def emit_def emitted_def line_str_def string_of_nat.simps
  sym_defined_def sym_define_def emitter_init_def splice_include_def py_strip_def
  process_def numeral_2_eq_2 files_define_first_def files_abc_def files_unbalanced_def
  files_scope_down_def

definition inactive_state :: file_state where
  "inactive_state = (init_state Map.empty)\<lparr>st_cond := add_if False empty_cstack\<rparr>"

definition taken_state :: file_state where
  "taken_state = (init_state Map.empty)\<lparr>st_cond := add_if True empty_cstack\<rparr>"

text \<open>A host for \<open>main\<close>: string paths, \<open>absolute\<close> the identity, and a compile
  database at \<open>cc.json\<close> whose entry for \<open>a.c\<close> is the given command.\<close>

definition demo_host :: "(string \<rightharpoonup> string) \<Rightarrow> string \<Rightarrow> string host" where
  "demo_host files cmd =
     \<lparr>host_fs = demo_fs files, host_path = id, host_absolute = id,
      host_json = [''cc.json'' \<mapsto> [(''a.c'', cmd)]]\<rparr>"

text \<open>\<open>a.c\<close> includes the system header \<open>b.h\<close> of the directory \<open>inc/\<close> under
  \<open>#ifdef X\<close>.\<close>

definition files_main :: "string \<rightharpoonup> string" where
  "files_main = [''a.c'' \<mapsto> ''#ifdef X'' @ [newline] @ ''#include <b.h>'' @ [newline] @
                   ''#endif'' @ [newline] @ ''int a;'' @ [newline],
                 ''inc/b.h'' \<mapsto> ''int b;'' @ [newline]]"

lemmas host_simps = demo_host_def files_main_def main_model_def py_dict_def py_split_def
  py_lstrip_def startswith_def switch_step_def main_parse_define_def options_init_def
  options_params_def

section \<open>Witnesses of the file processor's properties\<close>

theorem terminates_on_ranked_includes_witness:
  "process_file 2 (demo_cfg files_ab []) ''A'' Map.empty {} \<noteq> None"
proof -
  have h1: "\<forall>p q. include_edge (demo_cfg files_ab []) p q \<longrightarrow>
      (\<lambda>p. if p = ''A'' then 1 else 0 :: nat) q < (\<lambda>p. if p = ''A'' then 1 else 0 :: nat) p"
    by (auto simp: demo_simps split: if_splits)
  have h2: "(\<lambda>p. if p = ''A'' then 1 else 0 :: nat) ''A'' < 2" by simp
  show ?thesis using h1 h2 terminates_on_ranked_includes [OF h1 h2] by blast
qed

theorem terminates_with_pragma_once_witness:
  "process_file 2 (demo_cfg files_self []) ''A'' Map.empty {} \<noteq> None"
proof -
  have h1: "finite {''A''}" by simp
  have h2: "\<forall>p text. fs_read (cfg_fs (demo_cfg files_self [])) p = Some text \<longrightarrow>
      p \<in> {''A''} \<and> pragma_first text"
    by (auto simp: demo_simps split: if_splits)
  have h3: "card ({''A''} - {}) < (2::nat)" by simp
  show ?thesis using h1 h2 h3 terminates_with_pragma_once [OF h1 h2 h3] by blast
qed

theorem pragma_once_second_time_empty_witness:
  "fs_read (cfg_fs (demo_cfg files_self [])) ''A'' = Some (the (files_self ''A''))
   \<and> pragma_first (the (files_self ''A''))
   \<and> process_file 2 (demo_cfg files_self []) ''A'' Map.empty {} =
       Some (Inr (line_str 2 ''A'' @ ''x'' @ [newline], {''A''}))
   \<and> process_file 1 (demo_cfg files_self []) ''A'' Map.empty {''A''} = Some (Inr ([], {''A''}))"
proof -
  have h1: "fs_read (cfg_fs (demo_cfg files_self [])) ''A'' = Some (the (files_self ''A''))"
    by (simp add: demo_simps)
  have h2: "pragma_first (the (files_self ''A''))" by (simp add: demo_simps)
  have h3: "process_file 2 (demo_cfg files_self []) ''A'' Map.empty {} =
      Some (Inr (line_str 2 ''A'' @ ''x'' @ [newline], {''A''}))"
    by (simp add: demo_simps)
  have h4: "{''A''} \<subseteq> {''A''}" by simp
  show ?thesis
    using h1 h2 h3 pragma_once_second_time_empty [OF h1 h2 h3 h4, of 0 Map.empty] by simp
qed

theorem plain_file_gets_leading_marker_witness:
  "fs_read (cfg_fs (demo_cfg files_plain [])) ''A'' = Some (''a'' @ [newline] @ ''b'' @ [newline])
   \<and> ''a'' @ [newline] @ ''b'' @ [newline] \<noteq> []
   \<and> process_file 1 (demo_cfg files_plain []) ''A'' Map.empty {} =
       Some (Inr (line_str 0 ''A'' @ ''a'' @ [newline] @ ''b'' @ [newline], {}))"
proof -
  have h1: "fs_read (cfg_fs (demo_cfg files_plain [])) ''A'' = Some (''a'' @ [newline] @ ''b'' @ [newline])"
    by (simp add: demo_simps)
  have h2: "''a'' @ [newline] @ ''b'' @ [newline] \<noteq> []" by simp
  have h3: "\<forall>l \<in> set (readlines (''a'' @ [newline] @ ''b'' @ [newline])). match_command l = None"
    by (simp add: demo_simps)
  show ?thesis
    using h1 h2 h3 plain_file_gets_leading_marker [OF h1 h2 h3, of 0 Map.empty "{}"]
    by (simp add: demo_cfg_def demo_fs_def)
qed

text \<open>
  C22. A file that includes itself without \<open>#pragma once\<close> never finishes:
  whatever the fuel, the recursion of \<open>process_file\<close> runs out of it (in Python,
  a \<open>RecursionError\<close>).
\<close>

theorem unguarded_self_include_diverges:
  "process_file n (demo_cfg files_loop []) ''A'' defs inc = None"
proof (induction n arbitrary: defs inc)
  case 0
  show ?case by simp
next
  case (Suc n)
  let ?l = "''#include '' @ dq ''A'' @ [newline]"
  have rd: "fs_read (cfg_fs (demo_cfg files_loop [])) ''A'' = Some ?l"
    by (simp add: demo_cfg_def demo_fs_def files_loop_def)
  have rl: "readlines ?l = [?l]"
    by (simp add: demo_simps)
  have ls: "line_step (demo_cfg files_loop []) ''A'' 0 ?l (match_command ?l) (init_state defs) inc
      = Descend ''A''"
    by (simp add: demo_simps)
  show ?case using rd rl ls Suc.IH by (simp del: line_step.simps)
qed

theorem inactive_lines_ignored_witness:
  "process_lines 1 (demo_cfg files_plain []) ''A'' 0 [''#undef X'' @ [newline]] inactive_state {} =
     process_lines 1 (demo_cfg files_plain []) ''A'' 1 [] inactive_state {}"
proof -
  have h1: "\<not> is_valid (st_cond inactive_state)"
    by (simp add: inactive_state_def add_if_def is_valid_def empty_cstack_def)
  have h2: "map_option fst (match_command (''#undef X'' @ [newline]))
      \<in> {None, Some CInclude, Some CDefine, Some CUndef, Some CPragma}"
    by (simp add: demo_simps)
  show ?thesis using inactive_lines_ignored [OF h1 h2, of 1 _ _ 0] by (simp del: process_lines.simps)
qed

theorem elif_after_taken_not_evaluated_witness:
  "process_lines 1 (demo_cfg files_plain []) ''A'' 0 [''#elif garbage'' @ [newline]] taken_state {} =
     process_lines 1 (demo_cfg files_plain []) ''A'' 1 [] taken_state {}"
proof -
  have h1: "elif_allowed (st_cond taken_state) = Some False"
    by (simp add: taken_state_def add_if_def is_valid_def empty_cstack_def elif_allowed_def)
  have h2: "match_command (''#elif garbage'' @ [newline]) = Some (CElif, '' garbage'')"
    by (simp add: demo_simps)
  show ?thesis using elif_after_taken_not_evaluated [OF h1 h2, of 1 _ _ 0] by (simp del: process_lines.simps)
qed

theorem undef_absent_fails_witness:
  "process_file 1 (demo_cfg files_undef []) ''A'' Map.empty {} = Some (Inl (UndefinedSymbol ''X''))"
proof -
  have h1: "fs_read (cfg_fs (demo_cfg files_undef [])) ''A'' = Some (''a'' @ [newline] @ ''#undef X'' @ [newline])"
    by (simp add: demo_cfg_def demo_fs_def files_undef_def)
  have h2: "readlines (''a'' @ [newline] @ ''#undef X'' @ [newline])
      = [''a'' @ [newline]] @ (''#undef X'' @ [newline]) # []"
    by (simp add: readlines_def)
  have h3: "\<forall>p \<in> set [''a'' @ [newline]]. match_command p = None" by (simp add: demo_simps)
  have h4: "match_command (''#undef X'' @ [newline]) = Some (CUndef, '' X'')"
    by (simp add: demo_simps)
  have h5: "parse_ident '' X'' = Some ''X''" by (simp add: demo_simps)
  have h6: "\<not> sym_defined Map.empty ''X''" by (simp add: sym_defined_def)
  show ?thesis using undef_absent_fails [OF h1 h2 h3 h4 h5 h6, where n = 0 and inc = "{}"] by simp
qed

theorem include_not_found_fails_witness:
  "process_file 1 (demo_cfg files_noinc []) ''A'' Map.empty {} = Some (Inl (IncludeNotFound ''nope''))"
proof -
  have h1: "fs_read (cfg_fs (demo_cfg files_noinc [])) ''A''
      = Some (''a'' @ [newline] @ ''#include '' @ dq ''nope'' @ [newline])"
    by (simp add: demo_cfg_def demo_fs_def files_noinc_def)
  have h2: "readlines (''a'' @ [newline] @ ''#include '' @ dq ''nope'' @ [newline])
      = [''a'' @ [newline]] @ (''#include '' @ dq ''nope'' @ [newline]) # []"
    by (simp add: readlines_def dq_def)
  have h3: "\<forall>p \<in> set [''a'' @ [newline]]. match_command p = None" by (simp add: demo_simps)
  have h4: "match_command (''#include '' @ dq ''nope'' @ [newline]) = Some (CInclude, '' '' @ dq ''nope'')"
    by (simp add: demo_simps)
  have h5: "parse_include ('' '' @ dq ''nope'') = Some (dq ''nope'')" by (simp add: demo_simps)
  have h6: "resolve_include (cfg_fs (demo_cfg files_noinc [])) ''A'' (cfg_includes (demo_cfg files_noinc []))
      (include_path (dq ''nope'')) (include_is_system (dq ''nope'')) = None"
    by (simp add: demo_cfg_def demo_fs_def files_noinc_def resolve_include_def search_dirs_def
        fs_exists_def dq_def include_path_def include_is_system_def)
  have "include_path (dq ''nope'') = ''nope''" by (simp add: dq_def include_path_def)
  with include_not_found_fails [OF h1 h2 h3 h4 h5 h6, where n = 0 and inc = "{}" and defs = Map.empty] show ?thesis by simp
qed

theorem include_error_propagates_witness:
  "process_file 2 (demo_cfg files_suberr []) ''A'' Map.empty {} = Some (Inl (UndefinedSymbol ''X''))"
proof -
  have h1: "fs_read (cfg_fs (demo_cfg files_suberr [])) ''A''
      = Some (''a'' @ [newline] @ ''#include '' @ dq ''B'' @ [newline])"
    by (simp add: demo_cfg_def demo_fs_def files_suberr_def)
  have h2: "readlines (''a'' @ [newline] @ ''#include '' @ dq ''B'' @ [newline])
      = [''a'' @ [newline]] @ (''#include '' @ dq ''B'' @ [newline]) # []"
    by (simp add: readlines_def dq_def)
  have h3: "\<forall>p \<in> set [''a'' @ [newline]]. match_command p = None" by (simp add: demo_simps)
  have h4: "line_include (demo_cfg files_suberr []) ''A'' (''#include '' @ dq ''B'' @ [newline]) = Some ''B''"
    by (simp add: demo_simps files_suberr_def)
  have h5: "process_file 1 (demo_cfg files_suberr []) ''B'' Map.empty {} = Some (Inl (UndefinedSymbol ''X''))"
    by (simp add: demo_simps files_suberr_def sym_undef_def)
  have "process_file (Suc 1) (demo_cfg files_suberr []) ''A'' Map.empty {} = Some (Inl (UndefinedSymbol ''X''))"
    by (rule include_error_propagates [OF h1 h2 h3 h4 h5])
  then show ?thesis by (simp only: numeral_2_eq_2 One_nat_def)
qed

theorem reachable_top_is_conjunction_witness:
  "cs_inv (add_if False (add_if True empty_cstack))
   \<and> is_valid (add_if False (add_if True empty_cstack))
       = list_all id (ifs (add_if False (add_if True empty_cstack)))"
proof -
  have r1: "cs_reachable (add_if True empty_cstack)"
    using cs_reachable.step [OF cs_reachable.start, of "PushIf True"] by simp
  have r2: "cs_reachable (add_if False (add_if True empty_cstack))"
    using cs_reachable.step [OF r1, of "PushIf False"] by simp
  show ?thesis by (rule reachable_top_is_conjunction [OF r2])
qed

theorem stack_depth_is_nesting_witness:
  "int (length (ifs (the (cs_run empty_cstack [PushIf False, PushIf True, ElseOp])))) = 2
   \<and> length (allow_else (the (cs_run empty_cstack [PushIf False, PushIf True, ElseOp])))
       = length (ifs (the (cs_run empty_cstack [PushIf False, PushIf True, ElseOp])))"
proof -
  have run: "cs_run empty_cstack [PushIf False, PushIf True, ElseOp]
      = Some (the (cs_run empty_cstack [PushIf False, PushIf True, ElseOp]))"
    by (simp add: cs_defs)
  show ?thesis using stack_depth_is_nesting [OF run] by simp
qed

theorem keyword_classification_witness:
  "match_command ('' '' @ CHR ''#'' # ''ifdef'' @ '' X'' @ [newline]) = Some (CIfdef, '' X'')"
proof -
  have h1: "(''ifdef'', CIfdef) \<in> set command_keywords" by (simp add: command_keywords_def)
  have h2: "\<forall>x \<in> set '' ''. is_space x" by (simp add: is_space_def)
  have h3: "'' X'' @ [newline] = [] \<or> is_space (hd ('' X'' @ [newline]))" by (simp add: is_space_def)
  have "rest_group ('' X'' @ [newline]) = '' X''" by (simp add: demo_simps)
  with keyword_classification [OF h1 h2 h3] show ?thesis by simp
qed

theorem hash_space_is_text_witness:
  "match_command (CHR ''#'' # CHR '' '' # ''ifdef X'' @ [newline]) = None"
proof -
  have h1: "\<forall>x \<in> set []. is_space x" by simp
  have h2: "is_space (CHR '' '')" by (simp add: is_space_def)
  show ?thesis using hash_space_is_text [OF h1 h2, of "''ifdef X'' @ [newline]"] by simp
qed

theorem if_condition_reads_first_defined_witness:
  "eval_if [''A'' \<mapsto> None] ''#if defined(A)&&defined(B)''
     (CHR '' '' # ''defined('' @ ''A'' @ CHR '')'' # ''&&defined(B)'') = Inr True"
proof -
  have h1: "''A'' \<noteq> []" by simp
  have h2: "\<forall>c \<in> set ''A''. is_word c" by (simp add: is_word_def)
  have d: "sym_defined [''A'' \<mapsto> None] ''A''" by (simp add: sym_defined_def)
  have "eval_if [''A'' \<mapsto> None] ''#if defined(A)&&defined(B)''
     (CHR '' '' # ''defined('' @ ''A'' @ CHR '')'' # ''&&defined(B)'') = Inr (sym_defined [''A'' \<mapsto> None] ''A'')"
    by (rule if_condition_reads_first_defined [OF h1 h2])
  then show ?thesis by (simp only: d)
qed

theorem if_bare_identifier_fails_witness:
  "eval_if Map.empty ''#if X'' (CHR '' '' # ''X'') = Inl (Malformed ''#if X'')"
proof -
  have h1: "''X'' \<noteq> []" by simp
  have h2: "\<forall>c \<in> set ''X''. is_word c" by (simp add: is_word_def)
  have h3: "([] :: string) = [] \<or> is_space (hd [])" by simp
  show ?thesis using if_bare_identifier_fails [OF h1 h2 h3, of Map.empty "''#if X''"] by simp
qed

theorem system_include_ignores_includer_dir_witness:
  "resolve_include (demo_fs files_ab) ''A'' [''''] ''B'' True
     = resolve_include (demo_fs files_ab) ''dir/C'' [''''] ''B'' True"
proof -
  have h: "\<forall>d \<in> set ['''']. fs_join (demo_fs files_ab) d ''B'' = fs_join (demo_fs files_ab) d ''B''
      \<and> fs_read (demo_fs files_ab) (fs_join (demo_fs files_ab) d ''B'')
        = fs_read (demo_fs files_ab) (fs_join (demo_fs files_ab) d ''B'')"
    by simp
  show ?thesis by (rule system_include_ignores_includer_dir [OF h])
qed

theorem find_include_is_first_existing_witness:
  "find_include (demo_fs files_ab) ''B'' [''x/'', ''''] = Some ''B''"
proof -
  have "\<exists>i < length [''x/'', '''']. ''B'' = fs_join (demo_fs files_ab) ([''x/'', ''''] ! i) ''B''
      \<and> fs_exists (demo_fs files_ab) ''B''
      \<and> (\<forall>j < i. \<not> fs_exists (demo_fs files_ab) (fs_join (demo_fs files_ab) ([''x/'', ''''] ! j) ''B''))"
  proof (intro exI conjI)
    show "(1::nat) < length [''x/'', '''']" by simp
    show "''B'' = fs_join (demo_fs files_ab) ([''x/'', ''''] ! 1) ''B''" by (simp add: demo_fs_def)
    show "fs_exists (demo_fs files_ab) ''B''" by (simp add: fs_exists_def demo_fs_def files_ab_def)
    show "\<forall>j < 1. \<not> fs_exists (demo_fs files_ab) (fs_join (demo_fs files_ab) ([''x/'', ''''] ! j) ''B'')"
      by (simp add: fs_exists_def demo_fs_def files_ab_def)
  qed
  then show ?thesis by (rule find_include_is_first_existing [THEN iffD2])
qed

theorem include_not_found_iff_witness:
  "resolve_include (demo_fs files_ab) ''A'' [] ''nope'' False = None"
proof -
  have "\<forall>d \<in> set (search_dirs (demo_fs files_ab) ''A'' [] False).
      \<not> fs_exists (demo_fs files_ab) (fs_join (demo_fs files_ab) d ''nope'')"
    by (simp add: demo_simps)
  then show ?thesis by (rule include_not_found_iff [THEN iffD2])
qed

theorem marker_roundtrip_witness:
  "read_marker (line_str 12 ''A'') = Some (''A'', 12)"
proof -
  have "newline \<notin> set ''A''" by simp
  then show ?thesis by (rule marker_roundtrip)
qed

theorem define_directive_roundtrip_witness:
  "(case match_command (''#define '' @ ''X'' @ CHR '' '' # ''1'' @ [newline]) of
      Some (CDefine, rest) \<Rightarrow> parse_define rest | _ \<Rightarrow> None) = Some (''X'', Some ''1'')"
proof -
  have h1: "''X'' \<noteq> []" and h2: "\<forall>x \<in> set ''X''. is_word x" and h3: "''1'' \<noteq> []"
    and h4: "\<forall>x \<in> set ''1''. \<not> is_space x"
    by (simp_all add: is_word_def is_space_def)
  show ?thesis by (rule define_directive_roundtrip [OF h1 h2 h3 h4])
qed

theorem include_directive_roundtrip_witness:
  "(case match_command (''#include '' @ dquote # ''a.h'' @ [dquote, newline]) of
      Some (CInclude, rest) \<Rightarrow> map_option (\<lambda>g. (include_path g, include_is_system g)) (parse_include rest)
    | _ \<Rightarrow> None) = Some (''a.h'', False)"
proof -
  have h1: "newline \<notin> set ''a.h''" and h2: "dquote \<notin> set ''a.h''" and h3: "CHR ''>'' \<notin> set ''a.h''"
    by simp_all
  show ?thesis using include_directive_roundtrip [OF h1 h2 h3] by (rule conjunct1)
qed

theorem options_are_longest_prefix_witness:
  "parse_options options_init [''-q'', ''--verbose'', ''a.c'', ''-q'']
     = (options_init\<lparr>opt_verbose := True, opt_quiet := True\<rparr>, [''a.c'', ''-q''])"
proof -
  have p: "parse_options options_init [''-q'', ''--verbose'', ''a.c'', ''-q'']
      = (options_init\<lparr>opt_verbose := True, opt_quiet := True\<rparr>, [''a.c'', ''-q''])"
    by (simp add: options_params_def options_init_def)
  from options_are_longest_prefix [OF p] show ?thesis using p by simp
qed

theorem define_flag_read_exactly_iff_witness:
  "extract_flags [''-DX''] ([], []) = ([], [''X''])
   \<and> extract_flags [''-DDEBUG''] ([], []) \<noteq> ([], [''DEBUG''])"
proof -
  have a: "extract_flags [''-D'' @ ''X''] ([], []) = ([], [''X''])"
    by (rule define_flag_read_exactly_iff [THEN iffD2]) simp
  have b: "extract_flags [''-D'' @ ''DEBUG''] ([], []) \<noteq> ([], [''DEBUG''])"
    using define_flag_read_exactly_iff [of "''DEBUG''"] by simp
  from a b show ?thesis by simp
qed

theorem split_join_roundtrip_witness:
  "py_split (py_join '' '' [''gcc'', ''-Iinc'', ''a.c'']) = [''gcc'', ''-Iinc'', ''a.c'']"
proof -
  have "\<forall>w \<in> set [''gcc'', ''-Iinc'', ''a.c'']. w \<noteq> [] \<and> (\<forall>c \<in> set w. \<not> is_space c)"
    by (simp add: is_space_def)
  then show ?thesis by (rule split_join_roundtrip)
qed

theorem value_define_aborts_main_witness:
  "main_model 2 (demo_host files_main ''gcc -DK=V a.c'') [''cc.json'', ''a.c'', ''a.c'']
     = Some (Inl TypeErr)"
proof -
  have o: "parse_options options_init [''cc.json'', ''a.c'', ''a.c''] = (options_init, [''cc.json'', ''a.c'', ''a.c''])"
    by (simp add: options_params_def)
  let ?h = "demo_host files_main ''gcc -DK=V a.c''"
  have db: "host_json ?h (host_absolute ?h (host_path ?h ''cc.json'')) = Some [(''a.c'', ''gcc -DK=V a.c'')]"
    by (simp add: demo_host_def)
  have e: "py_dict (map (\<lambda>(f, c). (host_absolute ?h (host_path ?h f), c)) [(''a.c'', ''gcc -DK=V a.c'')])
      (host_absolute ?h (host_path ?h ''a.c'')) = Some ''gcc -DK=V a.c''"
    by (simp add: demo_host_def py_dict_def)
  have f: "extract_flags (py_split (py_strip ''gcc -DK=V a.c'')) ([], []) = ([], [''K=V''])"
    by (simp add: host_simps py_strip_def is_space_def)
  have one: "\<forall>d \<in> set [''K=V'']. length (filter ((=) (CHR ''='')) d) \<le> 1" by simp
  have val: "\<exists>d \<in> set [''K=V'']. CHR ''='' \<in> set d" by simp
  show ?thesis by (rule value_define_aborts_main [OF o db e f one val])
qed

theorem ifdef_taken_keeps_else_witness:
  "process_lines 1 (demo_cfg files_plain []) ''A'' 1
     ((''#ifdef X'' @ [newline]) # [''a line'' @ [newline]] @ (''#else'' @ [newline]) #
      [''other'' @ [newline]] @ (''#endif'' @ [newline]) # []) (init_state [''X'' \<mapsto> None]) {} =
   Some (Inr (line_str 2 ''A'' @ ''a line'' @ [newline] @ line_str 4 ''A'' @ ''other'' @ [newline], {}))"
proof -
  have h1: "is_valid (st_cond (init_state [''X'' \<mapsto> None]))" by (rule init_valid)
  have h2: "match_command (''#ifdef X'' @ [newline]) = Some (CIfdef, '' X'')" by (simp add: demo_simps)
  have h3: "parse_ident '' X'' = Some ''X''" by (simp add: demo_simps)
  have h4: "sym_defined (st_defines (init_state [''X'' \<mapsto> None])) ''X''" by (simp add: demo_simps)
  have h5: "\<forall>l \<in> set [''a line'' @ [newline]]. match_command l = None" by (simp add: demo_simps)
  have h6: "match_command (''#else'' @ [newline]) = Some (CElse, [newline])" by (simp add: demo_simps)
  have h7: "\<forall>l \<in> set [''other'' @ [newline]]. match_command l = None" by (simp add: demo_simps)
  have h8: "match_command (''#endif'' @ [newline]) = Some (CEndif, [newline])" by (simp add: demo_simps)
  have "process_lines 1 (demo_cfg files_plain []) ''A'' 1
     ((''#ifdef X'' @ [newline]) # [''a line'' @ [newline]] @ (''#else'' @ [newline]) #
      [''other'' @ [newline]] @ (''#endif'' @ [newline]) # []) (init_state [''X'' \<mapsto> None]) {} =
     process_lines 1 (demo_cfg files_plain []) ''A'' (1 + length [''a line'' @ [newline]]
       + length [''other'' @ [newline]] + 3) []
       ((init_state [''X'' \<mapsto> None])\<lparr>st_out := emit_from (fs_str (cfg_fs (demo_cfg files_plain [])) ''A'')
          (1 + length [''a line'' @ [newline]] + 2) [''other'' @ [newline]]
          (emit_from (fs_str (cfg_fs (demo_cfg files_plain [])) ''A'') (Suc 1) [''a line'' @ [newline]]
            (st_out (init_state [''X'' \<mapsto> None])))\<rparr>) {}"
    by (rule ifdef_taken_keeps_else [OF h1 h2 h3 h4 h5 h6 h7 h8])
  also have "\<dots> = Some (Inr (line_str 2 ''A'' @ ''a line'' @ [newline] @ line_str 4 ''A'' @ ''other'' @ [newline], {}))"
    by (simp add: demo_simps)
  finally show ?thesis .
qed

theorem ifndef_untaken_takes_else_witness:
  "process_lines 1 (demo_cfg files_plain []) ''A'' 1
     ((''#ifndef X'' @ [newline]) # [''a line'' @ [newline]] @ (''#else'' @ [newline]) #
      [''other'' @ [newline]] @ (''#endif'' @ [newline]) # []) (init_state [''X'' \<mapsto> None]) {} =
   Some (Inr (line_str 4 ''A'' @ ''other'' @ [newline], {}))"
proof -
  have h1: "is_valid (st_cond (init_state [''X'' \<mapsto> None]))" by (rule init_valid)
  have h2: "match_command (''#ifndef X'' @ [newline]) = Some (CIfndef, '' X'')" by (simp add: demo_simps)
  have h3: "parse_ident '' X'' = Some ''X''" by (simp add: demo_simps)
  have h4: "sym_defined (st_defines (init_state [''X'' \<mapsto> None])) ''X''" by (simp add: demo_simps)
  have h5: "\<forall>l \<in> set [''a line'' @ [newline]]. match_command l = None" by (simp add: demo_simps)
  have h6: "match_command (''#else'' @ [newline]) = Some (CElse, [newline])" by (simp add: demo_simps)
  have h7: "\<forall>l \<in> set [''other'' @ [newline]]. match_command l = None" by (simp add: demo_simps)
  have h8: "match_command (''#endif'' @ [newline]) = Some (CEndif, [newline])" by (simp add: demo_simps)
  show ?thesis
    using ifndef_untaken_takes_else [OF h1 h2 h3 h4 h5 h6 h7 h8, where n = 1 and i = 1 and ls = "[]"
        and cfg = "demo_cfg files_plain []" and fp = "''A''" and inc = "{}"]
    by (simp add: demo_simps del: process_lines.simps(2))
qed

theorem first_line_one_has_no_marker_witness:
  "process_file (Suc 0) (demo_cfg files_define_first []) ''A'' Map.empty {} =
     Some (Inr (''foo'' @ [newline], {}))"
proof -
  have h1: "fs_read (cfg_fs (demo_cfg files_define_first [])) ''A''
      = Some (''#define X'' @ [newline] @ ''foo'' @ [newline])"
    by (simp add: demo_cfg_def demo_fs_def files_define_first_def)
  have h2: "readlines (''#define X'' @ [newline] @ ''foo'' @ [newline])
      = (''#define X'' @ [newline]) # [''foo'' @ [newline]]"
    by (simp add: readlines_def)
  have h3: "match_command (''#define X'' @ [newline]) = Some (CDefine, '' X'')" by (simp add: demo_simps)
  have h4: "parse_define '' X'' = Some (''X'', None)" by (simp add: demo_simps)
  have h5: "\<not> passthrough_defines (demo_cfg files_define_first [])" by (simp add: demo_cfg_def)
  have h6: "\<forall>l \<in> set [''foo'' @ [newline]]. match_command l = None" by (simp add: demo_simps)
  show ?thesis
    using first_line_one_has_no_marker [OF h1 h2 h3 h4 h5 h6, where n = 0 and inc = "{}"]
    by (simp del: process_file.simps)
qed

theorem include_marker_off_by_one_witness:
  "process_lines 1 (demo_cfg files_abc []) ''A'' 1
     ((''#include '' @ dq ''B'' @ [newline]) # [''c'' @ [newline]])
     ((init_state Map.empty)\<lparr>st_out := emit ''A'' 0 (''a'' @ [newline]) emitter_init\<rparr>) {} =
   Some (Inr (line_str 0 ''A'' @ ''a'' @ [newline] @ line_str 0 ''B'' @ ''b'' @ [newline] @
              line_str 1 ''A'' @ ''c'' @ [newline], {}))"
proof -
  let ?st = "(init_state Map.empty)\<lparr>st_out := emit ''A'' 0 (''a'' @ [newline]) emitter_init\<rparr>"
  have h1: "line_include (demo_cfg files_abc []) ''A'' (''#include '' @ dq ''B'' @ [newline]) = Some ''B''"
    by (simp add: demo_simps)
  have h2: "is_valid (st_cond ?st)" by (simp add: demo_simps is_valid_def)
  have h3: "process_file 1 (demo_cfg files_abc []) ''B'' (st_defines ?st) {}
      = Some (Inr (line_str 0 ''B'' @ ''b'' @ [newline], {}))"
    by (simp add: demo_simps)
  have h4: "py_strip (line_str 0 ''B'' @ ''b'' @ [newline]) \<noteq> []" by (simp add: demo_simps)
  have h5: "\<forall>l \<in> set [''c'' @ [newline]]. match_command l = None" by (simp add: demo_simps)
  show ?thesis
    using include_marker_off_by_one [OF h1 h2 h3 h4 h5]
    by (simp add: demo_simps del: process_lines.simps(2))
qed

theorem unbalanced_conditional_accepted_witness:
  "process_file (Suc 0) (demo_cfg files_unbalanced []) ''A'' Map.empty {} = Some (Inr ([], {}))"
proof -
  have h1: "fs_read (cfg_fs (demo_cfg files_unbalanced [])) ''A''
      = Some (''#ifdef X'' @ [newline] @ ''foo'' @ [newline])"
    by (simp add: demo_cfg_def demo_fs_def files_unbalanced_def)
  have h2: "readlines (''#ifdef X'' @ [newline] @ ''foo'' @ [newline])
      = (''#ifdef X'' @ [newline]) # [''foo'' @ [newline]]"
    by (simp add: readlines_def)
  have h3: "match_command (''#ifdef X'' @ [newline]) = Some (CIfdef, '' X'')" by (simp add: demo_simps)
  have h4: "parse_ident '' X'' = Some ''X''" by (simp add: demo_simps)
  have h5: "\<not> sym_defined Map.empty ''X''" by (simp add: sym_defined_def)
  have h6: "\<forall>l \<in> set [''foo'' @ [newline]]. match_command l = None" by (simp add: demo_simps)
  show ?thesis by (rule unbalanced_conditional_accepted [OF h1 h2 h3 h4 h5 h6])
qed


theorem passthrough_keeps_define_lines_witness:
  "process_file (Suc 0) ((demo_cfg [''A'' \<mapsto> ''#define X 1'' @ [newline] @ ''a'' @ [newline]] [])
      \<lparr>passthrough_defines := True\<rparr>) ''A'' Map.empty {} =
   Some (Inr (line_str 0 ''A'' @ ''#define X 1'' @ [newline] @ ''a'' @ [newline], {}))"
proof -
  let ?cfg = "(demo_cfg [''A'' \<mapsto> ''#define X 1'' @ [newline] @ ''a'' @ [newline]] [])
      \<lparr>passthrough_defines := True\<rparr>"
  have h1: "passthrough_defines ?cfg" by simp
  have h2: "fs_read (cfg_fs ?cfg) ''A'' = Some (''#define X 1'' @ [newline] @ ''a'' @ [newline])"
    by (simp add: demo_cfg_def demo_fs_def)
  have h3: "''#define X 1'' @ [newline] @ ''a'' @ [newline] \<noteq> []" by simp
  have h4: "\<forall>l \<in> set (readlines (''#define X 1'' @ [newline] @ ''a'' @ [newline])).
      match_command l = None \<or>
      (\<exists>rest k v. match_command l = Some (CDefine, rest) \<and> parse_define rest = Some (k, v))"
    by (simp add: demo_simps)
  have "fs_str (cfg_fs ?cfg) ''A'' = ''A''" by (simp add: demo_cfg_def demo_fs_def)
  with passthrough_keeps_define_lines [OF h1 h2 h3 h4, where n = 0 and defs = Map.empty and inc = "{}"]
  show ?thesis by (simp del: process_file.simps)
qed

theorem pragma_once_keyed_by_path_witness:
  "process_file (Suc 0) (demo_cfg files_twice []) ''B'' Map.empty {''B''} = Some (Inr ([], {''B''}))
   \<and> process_file (Suc 0) (demo_cfg files_twice []) ''d/../B'' Map.empty {''B''} =
       Some (Inr (''b'' @ [newline], {''d/../B'', ''B''}))"
proof -
  let ?t = "''#pragma once'' @ [newline] @ ''b'' @ [newline]"
  have h1: "fs_read (cfg_fs (demo_cfg files_twice [])) ''B'' = Some ?t"
    by (simp add: demo_cfg_def demo_fs_def files_twice_def)
  have h2: "fs_read (cfg_fs (demo_cfg files_twice [])) ''d/../B'' = Some ?t"
    by (simp add: demo_cfg_def demo_fs_def files_twice_def)
  have h3: "''B'' \<in> {''B''}" and h4: "''d/../B'' \<notin> {''B''}" by simp_all
  have h5: "readlines ?t = (''#pragma once'' @ [newline]) # [''b'' @ [newline]]"
    by (simp add: readlines_def)
  have h6: "match_command (''#pragma once'' @ [newline]) = Some (CPragma, '' once'')"
    by (simp add: demo_simps)
  have h7: "parse_pragma '' once'' = Some ''once''" by (simp add: demo_simps)
  have h8: "\<forall>l \<in> set [''b'' @ [newline]]. match_command l = None" by (simp add: demo_simps)
  show ?thesis
    using pragma_once_keyed_by_path [OF h1 h2 h3 h4 h5 h6 h7 h8, where n = 0 and defs = Map.empty]
    by (simp del: process_file.simps)
qed

theorem markers_attribute_lines_witness:
  "attrib None (res (fold (\<lambda>(i, l). emit ''A'' i l)
      [(0, ''a'' @ [newline]), (2, ''b'' @ [newline]), (3, ''c'' @ [newline])] emitter_init)) =
   [(Some (''A'', 0), ''a'' @ [newline]), (Some (''A'', 2), ''b'' @ [newline]),
    (Some (''A'', 3), ''c'' @ [newline])]"
proof -
  have h1: "newline \<notin> set ''A''" by simp
  have h2: "\<forall>(i, l) \<in> set [(0::nat, ''a'' @ [newline]), (2, ''b'' @ [newline]), (3, ''c'' @ [newline])].
      newline \<notin> set (butlast l)" by simp
  have h3: "[(0::nat, ''a'' @ [newline]), (2, ''b'' @ [newline]), (3, ''c'' @ [newline])] = []
      \<or> fst (hd [(0::nat, ''a'' @ [newline]), (2, ''b'' @ [newline]), (3, ''c'' @ [newline])]) \<noteq> 1"
    by simp
  show ?thesis using markers_attribute_lines [OF h1 h2 h3] by simp
qed

theorem main_runs_process_witness:
  "main_model 2 (demo_host files_main ''gcc -Iinc/ -DX -c a.c'')
     [''--verbose'', ''cc.json'', ''a.c'', ''a.c''] =
   Some (Inr (Some (line_str 0 ''inc/b.h'' @ ''int b;'' @ [newline] @ line_str 1 ''a.c'' @
                    line_str 3 ''a.c'' @ ''int a;'' @ [newline] @ [newline])))"
proof -
  let ?h = "demo_host files_main ''gcc -Iinc/ -DX -c a.c''"
  have h1: "parse_options options_init [''--verbose'', ''cc.json'', ''a.c'', ''a.c''] =
      (options_init\<lparr>opt_verbose := True\<rparr>, [''cc.json'', ''a.c'', ''a.c''])"
    by (simp add: options_params_def options_init_def)
  have h2: "host_json ?h (host_absolute ?h (host_path ?h ''cc.json'')) = Some [(''a.c'', ''gcc -Iinc/ -DX -c a.c'')]"
    by (simp add: demo_host_def)
  have h3: "py_dict (map (\<lambda>(f, cm). (host_absolute ?h (host_path ?h f), cm)) [(''a.c'', ''gcc -Iinc/ -DX -c a.c'')])
      (host_absolute ?h (host_path ?h ''a.c'')) = Some ''gcc -Iinc/ -DX -c a.c''"
    by (simp add: demo_host_def py_dict_def)
  have h4: "\<forall>w \<in> set (py_split (py_strip ''gcc -Iinc/ -DX -c a.c'')).
      startswith w ''-D'' \<longrightarrow> CHR ''='' \<notin> set (py_lstrip w ''-D'')"
    by (simp add: py_split_def py_strip_def is_space_def startswith_def py_lstrip_def)
  have ws: "py_split ''gcc -Iinc/ -DX -c a.c'' = [''gcc'', ''-Iinc/'', ''-DX'', ''-c'', ''a.c'']"
    by (simp add: py_split_def is_space_def)
  show ?thesis
    using main_runs_process [OF h1 h2 h3 h4, where n = 2]
    by (simp add: ws demo_simps demo_host_def files_main_def startswith_def py_lstrip_def
        options_init_def)
qed

end
